theory Spec2Isabelle
  imports Main
begin

section \<open>The property graph\<close>

text \<open>
  A stored property value is a JSONB value of the node's property bag \<open>_props\<close>.
  The dictionary only declares scalars and lists of strings.
\<close>

datatype jsonb = JNull | JStr string | JBool bool | JNum int | JList "string list"

record node =
  node_id :: string
  label :: string
  props :: "(string \<times> jsonb) list"

text \<open>
  An edge \<open>(src, name, dst)\<close> makes \<open>dst\<close> reachable from \<open>src\<close> through the
  association attribute \<open>name\<close> of the class of \<open>src\<close> (a link or a backref).
\<close>

record graph =
  g_nodes :: "node list"
  g_edges :: "(string \<times> string \<times> string) list"

definition linked :: "graph \<Rightarrow> node \<Rightarrow> string \<Rightarrow> node list" where
  "linked g n name = filter (\<lambda>m. (node_id n, name, node_id m) \<in> set (g_edges g)) (g_nodes g)"

text \<open>
  The attributes of a psqlgraph model class that the code reads. A class is identified by
  its label; \<open>psqlgraph.Node\<close>, the polymorphic base, has the label \<open>node\<close>,
  \<open>models.Project\<close> the label \<open>project\<close> and \<open>models.Program\<close> the label
  \<open>program\<close>.
\<close>

datatype ptype = TStr | TBool | TNum | TList

record pgclass =
  pg_properties :: "(string \<times> ptype) list"
  pg_links :: "(string \<times> string) list"
  pg_backrefs :: "(string \<times> string) list"
  pg_edges :: "(string \<times> string) list"
  tablename :: "string option"

type_synonym schema = "string \<Rightarrow> pgclass"

text \<open>
  psqlgraph gives a class one attribute per declared property and one association proxy per
  entry of \<open>_pg_edges\<close>; \<open>hasattr\<close> is asked for such names only.
\<close>

definition hasattr :: "schema \<Rightarrow> string \<Rightarrow> string \<Rightarrow> bool" where
  "hasattr sch cls a \<longleftrightarrow> a \<in> fst ` set (pg_properties (sch cls)) \<or> a \<in> fst ` set (pg_edges (sch cls))"

datatype error =
    RuntimeError string
  | AssertionError string
  | IndexError
  | KeyError string
  | AttributeError string
  | TypeError

text \<open>
  The values of a GraphQL argument, as the types declared in \<open>get_node_class_args\<close> and
  \<open>get_withpathto_type\<close> allow them: a scalar, a list of scalars, or a list of input
  objects. A \<open>Float\<close> is kept as the text \<open>str\<close> prints for it.
\<close>

datatype scalar = SStr string | SBool bool | SInt int | SFloat string

datatype argval = Scalar scalar | ScalarList "scalar list" | ObjList "(string \<times> argval) list list"

type_synonym args = "(string \<times> argval) list"

section \<open>Text of stored values and SQL predicates\<close>

fun str_nat :: "nat \<Rightarrow> string" where
  "str_nat n = (if n < 10 then [''0123456789'' ! n] else str_nat (n div 10) @ [''0123456789'' ! (n mod 10)])"

definition str_int :: "int \<Rightarrow> string" where
  "str_int i = (if i < 0 then CHR ''-'' # str_nat (nat (- i)) else str_nat (nat i))"

definition hex2 :: "nat \<Rightarrow> string" where
  "hex2 n = [''0123456789abcdef'' ! (n div 16 mod 16), ''0123456789abcdef'' ! (n mod 16)]"

text \<open>The text PostgreSQL prints for a string inside a JSONB array.\<close>

definition json_escape :: "char \<Rightarrow> string" where
  "json_escape c =
     (if c = CHR 0x22 then [CHR 0x5C, CHR 0x22]
      else if c = CHR 0x5C then [CHR 0x5C, CHR 0x5C]
      else if c = CHR 0x08 then [CHR 0x5C, CHR ''b'']
      else if c = CHR 0x0C then [CHR 0x5C, CHR ''f'']
      else if c = CHR 0x0A then [CHR 0x5C, CHR ''n'']
      else if c = CHR 0x0D then [CHR 0x5C, CHR ''r'']
      else if c = CHR 0x09 then [CHR 0x5C, CHR ''t'']
      else if (of_char c :: nat) < 32 then [CHR 0x5C, CHR ''u'', CHR ''0'', CHR ''0''] @ hex2 (of_char c)
      else [c])"

definition json_string :: "string \<Rightarrow> string" where
  "json_string s = [CHR 0x22] @ concat (map json_escape s) @ [CHR 0x22]"

fun join_comma :: "string list \<Rightarrow> string" where
  "join_comma [] = []"
| "join_comma [x] = x"
| "join_comma (x # y # ys) = x @ '', '' @ join_comma (y # ys)"

definition json_array :: "string list \<Rightarrow> string" where
  "json_array xs = ''['' @ join_comma (map json_string xs) @ '']''"

text \<open>\<open>_props[key].astext\<close>, the operator \<open>->>\<close>: SQL NULL is \<open>None\<close>.\<close>

fun astext :: "jsonb \<Rightarrow> string option" where
  "astext JNull = None"
| "astext (JStr s) = Some s"
| "astext (JBool b) = Some (if b then ''true'' else ''false'')"
| "astext (JNum i) = Some (str_int i)"
| "astext (JList xs) = Some (json_array xs)"

text \<open>
  SQL \<open>LIKE\<close>: \<open>%\<close> matches any run of characters, \<open>_\<close> any one character, and a
  backslash makes the next pattern character literal.
\<close>

fun like :: "string \<Rightarrow> string \<Rightarrow> bool" where
  "like [] [] = True"
| "like [] (c # s) = False"
| "like (p # ps) [] = (p = CHR ''%'' \<and> like ps [])"
| "like (p # ps) (c # s) =
     (if p = CHR ''%'' then like ps (c # s) \<or> like (p # ps) s
      else if p = CHR ''_'' then like ps s
      else if p = CHR 0x5C then (case ps of [] \<Rightarrow> False | e # ps' \<Rightarrow> e = c \<and> like ps' s)
      else p = c \<and> like ps s)"

definition lower_char :: "char \<Rightarrow> char" where
  "lower_char c =
     (if (65::nat) \<le> of_char c \<and> (of_char c :: nat) \<le> 90 then char_of ((of_char c :: nat) + 32) else c)"

definition lower :: "string \<Rightarrow> string" where
  "lower s = map lower_char s"

text \<open>
  A predicate has three truth values; \<open>None\<close> is SQL's unknown. A \<open>WHERE\<close> clause keeps
  the rows on which it is \<open>Some True\<close>.
\<close>

type_synonym tv = "bool option"

definition sql_false :: tv where
  "sql_false = Some False"

definition sql_eq :: "string option \<Rightarrow> string \<Rightarrow> tv" where
  "sql_eq c v = map_option (\<lambda>t. t = v) c"

definition sql_in :: "string option \<Rightarrow> string list \<Rightarrow> tv" where
  "sql_in c vs = map_option (\<lambda>t. t \<in> set vs) c"

definition sql_like :: "string option \<Rightarrow> string \<Rightarrow> tv" where
  "sql_like c pat = map_option (like pat) c"

definition sql_contains :: "string option \<Rightarrow> string \<Rightarrow> tv" where
  "sql_contains c s = sql_like c (''%'' @ s @ ''%'')"

definition sql_lower :: "string option \<Rightarrow> string option" where
  "sql_lower c = map_option lower c"

definition sql_and :: "tv list \<Rightarrow> tv" where
  "sql_and ts = (if Some False \<in> set ts then Some False else if None \<in> set ts then None else Some True)"

definition sql_or :: "tv list \<Rightarrow> tv" where
  "sql_or ts = (if Some True \<in> set ts then Some True else if None \<in> set ts then None else Some False)"

text \<open>\<open>str(v)\<close>.\<close>

fun py_str :: "scalar \<Rightarrow> string" where
  "py_str (SStr s) = s"
| "py_str (SBool b) = (if b then ''True'' else ''False'')"
| "py_str (SInt i) = str_int i"
| "py_str (SFloat t) = t"

text \<open>
  JSONB containment \<open>_props @> {key: val}\<close>: the key is present and its value contains
  \<open>val\<close>; scalars by equality, an array when it holds every element of the other. Stored
  arrays hold strings.
\<close>

fun scalar_eq :: "jsonb \<Rightarrow> scalar \<Rightarrow> bool" where
  "scalar_eq (JStr a) (SStr b) = (a = b)"
| "scalar_eq (JBool a) (SBool b) = (a = b)"
| "scalar_eq (JNum i) (SInt j) = (i = j)"
| "scalar_eq (JNum i) (SFloat t) = (t = str_int i @ ''.0'')"
| "scalar_eq v s = False"

fun value_contains :: "jsonb \<Rightarrow> argval \<Rightarrow> bool" where
  "value_contains (JList ys) (ScalarList xs) = list_all (\<lambda>x. case x of SStr s \<Rightarrow> s \<in> set ys | _ \<Rightarrow> False) xs"
| "value_contains (JList ys) (ObjList ds) = (ds = [])"
| "value_contains (JList ys) (Scalar s) = False"
| "value_contains v (Scalar s) = scalar_eq v s"
| "value_contains v a = False"

definition jsonb_contains :: "(string \<times> jsonb) list \<Rightarrow> string \<Rightarrow> argval \<Rightarrow> bool" where
  "jsonb_contains ps k val = (case map_of ps k of None \<Rightarrow> False | Some v \<Rightarrow> value_contains v val)"

section \<open>Queries\<close>

text \<open>
  A row of a query carries the selected entity (\<open>root\<close>, of the class the query was made
  for) and the entities joined to it by \<open>path\<close>, newest first, each under its class.
\<close>

record joinrow =
  root_cls :: string
  root :: node
  joined :: "(string \<times> node) list"

definition entity_of :: "joinrow \<Rightarrow> string \<Rightarrow> node option" where
  "entity_of r c = (if c = root_cls r then Some (root r) else map_of (joined r) c)"

definition col_node_id :: "string \<Rightarrow> joinrow \<Rightarrow> string option" where
  "col_node_id c r = map_option node_id (entity_of r c)"

definition col_astext :: "string \<Rightarrow> string \<Rightarrow> joinrow \<Rightarrow> string option" where
  "col_astext c k r =
     (case entity_of r c of
        None \<Rightarrow> None
      | Some n \<Rightarrow> (case map_of (props n) k of None \<Rightarrow> None | Some v \<Rightarrow> astext v))"

definition col_contains :: "string \<Rightarrow> string \<Rightarrow> argval \<Rightarrow> joinrow \<Rightarrow> tv" where
  "col_contains c k val r = map_option (\<lambda>n. jsonb_contains (props n) k val) (entity_of r c)"

text \<open>
  A query is the builder state the code reads (\<open>entity()\<close> is the class at the current
  join point) together with the rows its \<open>FROM\<close>, \<open>JOIN\<close> and \<open>WHERE\<close> clauses
  denote, and the \<open>LIMIT\<close> and \<open>OFFSET\<close> of its \<open>SELECT\<close>.
\<close>

record query =
  q_root :: string
  q_joinpoint :: string
  q_rows :: "joinrow list"
  q_limit :: "nat option"
  q_offset :: "nat option"

definition q_entity :: "query \<Rightarrow> string" where
  "q_entity q = q_joinpoint q"

definition mk_row :: "string \<Rightarrow> node \<Rightarrow> joinrow" where
  "mk_row c n = \<lparr>root_cls = c, root = n, joined = []\<rparr>"

definition mk_query :: "string \<Rightarrow> node list \<Rightarrow> query" where
  "mk_query c ns = \<lparr>q_root = c, q_joinpoint = c, q_rows = map (mk_row c) ns, q_limit = None, q_offset = None\<rparr>"

text \<open>\<open>capp.db.nodes(cls)\<close>: every node for the base class, the nodes of the label otherwise.\<close>

definition db_nodes :: "graph \<Rightarrow> string \<Rightarrow> query" where
  "db_nodes g cls = mk_query cls (filter (\<lambda>n. cls = ''node'' \<or> label n = cls) (g_nodes g))"

text \<open>
  \<open>q.filter(p)\<close> adds to the \<open>WHERE\<close> clause. SQLAlchemy refuses it, and a join, on a
  query that already carries a limit or an offset; the code builds its filters and joins
  before it sets either. Where SQL leaves the order of rows open, the rows are kept in the
  order of the store.
\<close>

definition q_filter :: "query \<Rightarrow> (joinrow \<Rightarrow> tv) \<Rightarrow> query" where
  "q_filter q p = q\<lparr>q_rows := filter (\<lambda>r. p r = Some True) (q_rows q)\<rparr>"

definition reset_joinpoint :: "query \<Rightarrow> query" where
  "reset_joinpoint q = q\<lparr>q_joinpoint := q_root q\<rparr>"

text \<open>
  The rows a statement selects: \<open>OFFSET\<close> skips rows, then \<open>LIMIT\<close> caps what is left,
  whatever the order in which \<open>limit()\<close> and \<open>offset()\<close> were called on the query.
\<close>

definition q_select :: "query \<Rightarrow> node list" where
  "q_select q =
     (let skipped = (case q_offset q of None \<Rightarrow> map root (q_rows q) | Some m \<Rightarrow> drop m (map root (q_rows q)))
      in case q_limit q of None \<Rightarrow> skipped | Some k \<Rightarrow> take k skipped)"

text \<open>A list without its repeats, each element at its first place.\<close>

definition unique_list :: "'a list \<Rightarrow> 'a list" where
  "unique_list xs = rev (remdups (rev xs))"

text \<open>\<open>q.all()\<close>: the ORM returns each selected entity once.\<close>

definition q_all :: "query \<Rightarrow> node list" where
  "q_all q = unique_list (q_select q)"

definition q_limit_set :: "query \<Rightarrow> nat option \<Rightarrow> query" where
  "q_limit_set q k = q\<lparr>q_limit := k\<rparr>"

definition q_offset_set :: "query \<Rightarrow> nat \<Rightarrow> query" where
  "q_offset_set q m = q\<lparr>q_offset := Some m\<rparr>"

text \<open>\<open>from_self()\<close> selects from the query as a subquery.\<close>

definition from_self :: "query \<Rightarrow> query" where
  "from_self q = mk_query (q_root q) (q_select q)"

text \<open>\<open>UNION\<close> and \<open>EXCEPT\<close> return distinct rows; \<open>UNION ALL\<close> keeps duplicates.\<close>

definition q_union :: "query \<Rightarrow> query \<Rightarrow> query" where
  "q_union a b = mk_query (q_root a) (unique_list (q_select a @ q_select b))"

definition q_except :: "query \<Rightarrow> query \<Rightarrow> query" where
  "q_except a b = mk_query (q_root a) (unique_list (filter (\<lambda>n. n \<notin> set (q_select b)) (q_select a)))"

definition select_union_all :: "string \<Rightarrow> query list \<Rightarrow> query" where
  "select_union_all cls qs = mk_query cls (concat (map q_select qs))"

section \<open>Request context\<close>

text \<open>
  What the code reads from the application and the request: the dictionary's classes, the
  database, \<open>capp.node_authz_entity\<close> and \<open>capp.subject_entity\<close> (either may be
  \<open>None\<close>), the caller's permissions \<open>flask.g.read_access_permissions\<close> (the items of
  the dictionary, in order) and \<open>flask.g.read_access_projects\<close>, and the value of
  \<open>case_cache_enabled()\<close>. \<open>graph_traversals\<close> is the table of link paths between two
  classes that the traversal module searches.
\<close>

record env =
  e_schema :: schema
  e_graph :: graph
  node_authz_entity :: "string option"
  subject_entity :: "string option"
  read_access_permissions :: "(string \<times> string list) list"
  read_access_projects :: "string list"
  case_cache_enabled :: bool
  graph_traversals :: "string \<Rightarrow> string \<Rightarrow> string list list"

section \<open>psqlgraph query methods\<close>

text \<open>
  \<open>q.path(names)\<close> joins along the association attributes, one inner join per name, and
  leaves the join point at the last class. The dotted path string is kept as the list of its
  names.
\<close>

definition q_join :: "graph \<Rightarrow> query \<Rightarrow> string \<Rightarrow> string \<Rightarrow> query" where
  "q_join g q e dst =
     q\<lparr>q_joinpoint := dst,
       q_rows := concat (map (\<lambda>r. case entity_of r (q_joinpoint q) of
                                      None \<Rightarrow> []
                                    | Some n \<Rightarrow> map (\<lambda>m. r\<lparr>joined := (dst, m) # joined r\<rparr>) (linked g n e))
                             (q_rows q))\<rparr>"

fun q_path_names :: "schema \<Rightarrow> graph \<Rightarrow> string list \<Rightarrow> query \<Rightarrow> error + query" where
  "q_path_names sch g [] q = Inr q"
| "q_path_names sch g (e # es) q =
     (case map_of (pg_edges (sch (q_entity q))) e of
        None \<Rightarrow> Inl (AttributeError e)
      | Some dst \<Rightarrow> q_path_names sch g es (q_join g q e dst))"

definition q_path :: "schema \<Rightarrow> graph \<Rightarrow> string list \<Rightarrow> query \<Rightarrow> error + query" where
  "q_path sch g names q =
     (if q_entity q = ''node'' then Inl (AssertionError ''Please narrow your search by specifying a node subclass'')
      else q_path_names sch g names q)"

text \<open>\<open>q.props(key=val)\<close> filters on JSONB containment at the current entity.\<close>

definition q_props :: "query \<Rightarrow> string \<Rightarrow> argval \<Rightarrow> query" where
  "q_props q k v = q_filter q (col_contains (q_entity q) k v)"

section \<open>util.py: the authorization filter\<close>

text \<open>
  Lines 138 to 141: the loop that follows the first link of each class until it meets the
  authorization class or the program. It need not end on a cyclic dictionary; \<open>None\<close> is
  the run that never returns.
\<close>

partial_function (option) walk_parents ::
  "schema \<Rightarrow> string \<Rightarrow> string \<Rightarrow> string list \<Rightarrow> (error + string list \<times> string) option" where
  "walk_parents sch authLeafNode tmp path_tmp =
     (if tmp \<noteq> authLeafNode \<and> tmp \<noteq> ''program'' then
        (case pg_links (sch tmp) of
           [] \<Rightarrow> Some (Inl IndexError)
         | link # rest \<Rightarrow> walk_parents sch authLeafNode (snd link) (path_tmp @ [fst link]))
      else Some (Inr (path_tmp, tmp)))"

declare walk_parents.simps [code]

text \<open>Lines 152 to 155.\<close>

definition join_persons :: "env \<Rightarrow> query \<Rightarrow> string \<Rightarrow> error + query \<times> string \<times> string option" where
  "join_persons env q cls =
     (if Some cls = node_authz_entity env then
        (case q_path (e_schema env) (e_graph env) [''persons''] q of
           Inl e \<Rightarrow> Inl e
         | Inr q1 \<Rightarrow> Inr (reset_joinpoint q1, cls, Some (q_entity q1)))
      else Inr (q, cls, None))"

text \<open>Lines 131 to 155: the result is the query, \<open>cls\<close> and \<open>sub_cls\<close>.\<close>

definition join_authz :: "env \<Rightarrow> query \<Rightarrow> (error + query \<times> string \<times> string option) option" where
  "join_authz env q =
     (let cls = q_entity q in
      case node_authz_entity env of
        None \<Rightarrow> Some (Inr (q, cls, None))
      | Some authLeafNode \<Rightarrow>
          if cls \<noteq> ''project'' \<and> cls \<noteq> ''program'' \<and> Some cls \<noteq> subject_entity env then
            (if cls \<noteq> authLeafNode then
               (case pg_links (e_schema env cls) of
                  [] \<Rightarrow> Some (Inl IndexError)
                | link # rest \<Rightarrow>
                    (case walk_parents (e_schema env) authLeafNode (snd link) [fst link] of
                       None \<Rightarrow> None
                     | Some (Inl e) \<Rightarrow> Some (Inl e)
                     | Some (Inr (path_tmp, tmp)) \<Rightarrow>
                         if tmp = authLeafNode then
                           (case q_path (e_schema env) (e_graph env) path_tmp q of
                              Inl e \<Rightarrow> Some (Inl e)
                            | Inr q1 \<Rightarrow> Some (join_persons env q1 (q_entity q1)))
                         else Some (join_persons env q cls)))
             else Some (join_persons env q cls))
          else Some (Inr (q, cls, None)))"

text \<open>
  Lines 163 to 186: one pass of the loop over the permission items, for the item
  \<open>(key, value)\<close>. It returns the query and the group appended to \<open>ands\<close>.
\<close>

definition scope_group ::
  "env \<Rightarrow> string \<Rightarrow> string option \<Rightarrow> string \<Rightarrow> string list \<Rightarrow> query
     \<Rightarrow> error + query \<times> (joinrow \<Rightarrow> tv)" where
  "scope_group env cls sub_cls key val q =
     (let project_eq = (\<lambda>r. sql_eq (col_astext cls ''project_id'' r) key) in
      if ''*'' \<notin> set val \<and> node_authz_entity env \<noteq> None then
        (if cls \<noteq> ''project'' \<and> cls \<noteq> ''program'' \<and> length val > 0 then
           (if Some cls = node_authz_entity env \<and> sub_cls = subject_entity env then
              (case sub_cls of
                 None \<Rightarrow> Inl (AttributeError ''_props'')
               | Some sc \<Rightarrow>
                   Inr (q, \<lambda>r. sql_and [project_eq r,
                                         sql_or [sql_in (col_astext cls ''submitter_id'' r) val,
                                                 sql_in (col_astext sc ''submitter_id'' r) val]]))
            else if Some cls = subject_entity env then
              (case q_path (e_schema env) (e_graph env) [''subjects''] q of
                 Inl e \<Rightarrow> Inl e
               | Inr q1 \<Rightarrow>
                   (case map_of (pg_backrefs (e_schema env cls)) ''subjects'' of
                      None \<Rightarrow> Inl (KeyError ''subjects'')
                    | Some src \<Rightarrow>
                        Inr (reset_joinpoint q1,
                             \<lambda>r. sql_and [project_eq r,
                                          sql_or [sql_in (col_astext cls ''submitter_id'' r) val,
                                                  sql_in (col_astext (q_entity q1) ''submitter_id'' r) val]])))
            else Inr (q, \<lambda>r. sql_and [project_eq r]))
         else Inr (q, \<lambda>r. sql_and [project_eq r]))
      else Inr (q, \<lambda>r. sql_and [project_eq r]))"

fun scope_groups ::
  "env \<Rightarrow> string \<Rightarrow> string option \<Rightarrow> (string \<times> string list) list \<Rightarrow> query \<Rightarrow> (joinrow \<Rightarrow> tv) list
     \<Rightarrow> error + query \<times> (joinrow \<Rightarrow> tv) list" where
  "scope_groups env cls sub_cls [] q ands = Inr (q, ands)"
| "scope_groups env cls sub_cls (item # items) q ands =
     (case scope_group env cls sub_cls (fst item) (snd item) q of
        Inl e \<Rightarrow> Inl e
      | Inr (q1, grp) \<Rightarrow> scope_groups env cls sub_cls items q1 (ands @ [grp]))"

text \<open>Lines 157 to 189.\<close>

definition scope_filter :: "env \<Rightarrow> query \<Rightarrow> string \<Rightarrow> string option \<Rightarrow> error + query" where
  "scope_filter env q cls sub_cls =
     (if cls = ''node'' \<or> hasattr (e_schema env) cls ''project_id'' then
        (if length (read_access_permissions env) < 1 then Inr (q_filter q (\<lambda>r. sql_false))
         else
           (case scope_groups env cls sub_cls (read_access_permissions env) q [] of
              Inl e \<Rightarrow> Inl e
            | Inr (q1, ands) \<Rightarrow>
                Inr (if ands \<noteq> [] then q_filter q1 (\<lambda>r. sql_or (map (\<lambda>p. p r) ands)) else q1)))
      else Inr q)"

section \<open>node.py: the project filter\<close>

text \<open>\<open>project_id.split("-", 1)\<close>.\<close>

definition split_hyphen :: "string \<Rightarrow> string list" where
  "split_hyphen s =
     (case dropWhile (\<lambda>c. c \<noteq> CHR ''-'') s of
        [] \<Rightarrow> [s]
      | c # rest \<Rightarrow> [takeWhile (\<lambda>c. c \<noteq> CHR ''-'') s, rest])"

text \<open>
  Lines 65 to 67: a value that is not a list is wrapped in one. The elements are scalars;
  \<open>None\<close> stands for an element that is an input object.
\<close>

fun project_id_list :: "argval \<Rightarrow> scalar option list" where
  "project_id_list (Scalar s) = [Some s]"
| "project_id_list (ScalarList xs) = map Some xs"
| "project_id_list (ObjList ds) = map (\<lambda>d. None) ds"

text \<open>Lines 69 to 75: the subqueries of the ids that split in two.\<close>

fun project_subqs :: "env \<Rightarrow> query \<Rightarrow> scalar option list \<Rightarrow> error + query list" where
  "project_subqs env q [] = Inr []"
| "project_subqs env q (Some (SStr project_id) # project_ids) =
     (case split_hyphen project_id of
        [program_name, project_code] \<Rightarrow>
          (case q_path (e_schema env) (e_graph env) [''programs'']
                  (q_props q ''code'' (Scalar (SStr project_code))) of
             Inl e \<Rightarrow> Inl e
           | Inr q1 \<Rightarrow>
               (case project_subqs env q project_ids of
                  Inl e \<Rightarrow> Inl e
                | Inr subqs \<Rightarrow> Inr (q_props q1 ''name'' (Scalar (SStr program_name)) # subqs)))
      | _ \<Rightarrow> project_subqs env q project_ids)"
| "project_subqs env q (other # project_ids) = Inl (AttributeError ''split'')"

text \<open>Lines 58 to 83.\<close>

definition filter_project_project_id :: "env \<Rightarrow> query \<Rightarrow> argval \<Rightarrow> error + query" where
  "filter_project_project_id env q val =
     (case project_subqs env q (project_id_list val) of
        Inl e \<Rightarrow> Inl e
      | Inr subqs \<Rightarrow>
          Inr (if subqs = [] then q_filter q (\<lambda>r. sql_false)
               else select_union_all (q_entity q) subqs))"

text \<open>Lines 120 to 199.\<close>

definition authorization_filter :: "env \<Rightarrow> query \<Rightarrow> (error + query) option" where
  "authorization_filter env q =
     (case join_authz env q of
        None \<Rightarrow> None
      | Some (Inl e) \<Rightarrow> Some (Inl e)
      | Some (Inr (q1, cls, sub_cls)) \<Rightarrow>
          (case scope_filter env q1 cls sub_cls of
             Inl e \<Rightarrow> Some (Inl e)
           | Inr q2 \<Rightarrow>
               if cls = ''project'' then Some (filter_project_project_id env q2 (ScalarList (map SStr (read_access_projects env))))
               else Some (Inr q2)))"

definition get_authorized_query :: "env \<Rightarrow> string \<Rightarrow> (error + query) option" where
  "get_authorized_query env cls = authorization_filter env (db_nodes (e_graph env) cls)"

section \<open>node.py: traversal filters\<close>

text \<open>\<open>q.ids(ids)\<close>: equality with \<open>str(ids)\<close> for a scalar, membership for a list of strings.\<close>

fun str_items :: "scalar list \<Rightarrow> error + string list" where
  "str_items [] = Inr []"
| "str_items (SStr s # xs) = (case str_items xs of Inl e \<Rightarrow> Inl e | Inr ss \<Rightarrow> Inr (s # ss))"
| "str_items (x # xs) = Inl TypeError"

definition q_ids :: "query \<Rightarrow> argval \<Rightarrow> error + query" where
  "q_ids q ids =
     (case ids of
        Scalar s \<Rightarrow> Inr (q_filter q (\<lambda>r. sql_eq (col_node_id (q_entity q) r) (py_str s)))
      | ScalarList xs \<Rightarrow>
          (case str_items xs of
             Inl e \<Rightarrow> Inl e
           | Inr ss \<Rightarrow> Inr (q_filter q (\<lambda>r. sql_in (col_node_id (q_entity q) r) ss)))
      | ObjList ds \<Rightarrow> Inl TypeError)"

text \<open>Lines 118 to 126, for the entry left after \<open>type\<close> was popped.\<close>

fun end_of_traversal_filter :: "(string \<times> argval) list \<Rightarrow> query \<Rightarrow> error + query" where
  "end_of_traversal_filter [] q = Inr q"
| "end_of_traversal_filter (item # items) q =
     (if fst item = ''id'' then
        (case q_ids q (snd item) of
           Inl e \<Rightarrow> Inl e
         | Inr q1 \<Rightarrow> end_of_traversal_filter items q1)
      else end_of_traversal_filter items (q_props q (fst item) (snd item)))"

text \<open>The nodes at the end of a path of association names.\<close>

fun follow :: "graph \<Rightarrow> string list \<Rightarrow> node \<Rightarrow> node list" where
  "follow g [] n = [n]"
| "follow g (e # es) n = concat (map (follow g es) (linked g n e))"

text \<open>
  \<open>q.subq_path(link, filter)\<close> of psqlgraph: the rows of \<open>q\<close> whose entity has, through
  \<open>link\<close>, a neighbour that the filter keeps.
\<close>

definition subq_path :: "env \<Rightarrow> query \<Rightarrow> string \<Rightarrow> (query \<Rightarrow> error + query) \<Rightarrow> error + query" where
  "subq_path env q link f =
     (case map_of (pg_edges (e_schema env (q_entity q))) link of
        None \<Rightarrow> Inl (AttributeError link)
      | Some dst \<Rightarrow>
          (case f (db_nodes (e_graph env) dst) of
             Inl e \<Rightarrow> Inl e
           | Inr d \<Rightarrow>
               Inr (q_filter q (\<lambda>r. map_option
                                     (\<lambda>n. \<exists>m \<in> set (linked (e_graph env) n link). m \<in> set (q_select d))
                                     (entity_of r (q_entity q))))))"

text \<open>
  Modelled from the spec: \<open>subq_paths\<close> of the traversal module, which is not among the
  sources. The spec has it search the schema graph for paths from the source class to the
  destination class and turn each path found into a derived existence subquery: the source
  rows that can reach a destination row satisfying the end-of-path filter. The paths found
  are \<open>graph_traversals\<close>.
\<close>

definition subq_paths :: "env \<Rightarrow> query \<Rightarrow> string \<Rightarrow> (query \<Rightarrow> error + query) \<Rightarrow> error + query" where
  "subq_paths env q dst_type f =
     (case f (db_nodes (e_graph env) dst_type) of
        Inl e \<Rightarrow> Inl e
      | Inr d \<Rightarrow>
          Inr (q_filter q (\<lambda>r. map_option
                                (\<lambda>n. \<exists>path \<in> set (graph_traversals env (q_entity q) dst_type).
                                       \<exists>m \<in> set (follow (e_graph env) path n). m \<in> set (q_select d))
                                (entity_of r (q_entity q)))))"

text \<open>
  The class objects that line 112 compares with \<open>is\<close>: \<open>q.entity()\<close> is a psqlgraph
  class, \<open>Node\<close> is the \<open>graphene.Interface\<close> that line 408 of the module defines.
\<close>

datatype pyclass = PsqlgraphClass string | GrapheneNode

text \<open>Lines 105 to 109: \<open>entry.pop("type", None)\<close> and the check of it.\<close>

definition entry_type :: "string \<Rightarrow> (string \<times> argval) list \<Rightarrow> error + string" where
  "entry_type name entry =
     (case map_of entry ''type'' of
        None \<Rightarrow> Inl (RuntimeError (''Please specify a {type: <type>} in the '' @ name @ '' filter.''))
      | Some (Scalar (SStr t)) \<Rightarrow>
          if t = [] then Inl (RuntimeError (''Please specify a {type: <type>} in the '' @ name @ '' filter.''))
          else Inr t
      | Some other \<Rightarrow> Inl TypeError)"

text \<open>Lines 128 to 148: the query carried on and the subquery of one entry.\<close>

definition traverse :: "env \<Rightarrow> query \<Rightarrow> string \<Rightarrow> (query \<Rightarrow> error + query) \<Rightarrow> error + query \<times> query" where
  "traverse env q dst_type f =
     (if case_cache_enabled env \<and> dst_type = ''case'' then
        (if hasattr (e_schema env) (q_entity q) ''_related_cases'' then
           (case subq_path env q ''_related_cases'' f of Inl e \<Rightarrow> Inl e | Inr subq \<Rightarrow> Inr (q, subq))
         else Inr (q, q_filter q (\<lambda>r. sql_false)))
      else if case_cache_enabled env \<and> q_entity q = ''case'' then
        (let link = ''_related_'' @ dst_type; q0 = q_limit_set q None in
         if hasattr (e_schema env) (q_entity q0) link then
           (case subq_path env q0 link f of Inl e \<Rightarrow> Inl e | Inr subq \<Rightarrow> Inr (q0, subq))
         else Inr (q0, q_filter q0 (\<lambda>r. sql_false)))
      else
        (case subq_paths env q dst_type f of Inl e \<Rightarrow> Inl e | Inr subq \<Rightarrow> Inr (q, subq)))"

text \<open>
  Lines 101 to 154: the loop over the entries, with \<open>q\<close> and \<open>union_qs\<close>; \<open>any\<close> is
  the parameter \<open>union\<close>.
\<close>

fun with_path_to_entries ::
  "env \<Rightarrow> bool \<Rightarrow> string \<Rightarrow> (string \<times> argval) list list \<Rightarrow> query \<Rightarrow> query list
     \<Rightarrow> error + query \<times> query list" where
  "with_path_to_entries env any name [] q union_qs = Inr (q, union_qs)"
| "with_path_to_entries env any name (entry # entries) q union_qs =
     (case entry_type name entry of
        Inl e \<Rightarrow> Inl e
      | Inr dst_type \<Rightarrow>
          if PsqlgraphClass (q_entity q) = GrapheneNode then
            Inl (RuntimeError (name @ '' filter cannot be used with '' @ [CHR 0x22] @ ''node'' @ [CHR 0x22] @ '' interface''))
          else
            (case traverse env q dst_type
                    (end_of_traversal_filter (filter (\<lambda>item. fst item \<noteq> ''type'') entry)) of
               Inl e \<Rightarrow> Inl e
             | Inr (q1, subq) \<Rightarrow>
                 if any then with_path_to_entries env any name entries q1 (union_qs @ [subq])
                 else with_path_to_entries env any name entries subq union_qs))"

text \<open>Lines 86 to 165. A value that is not a list of input objects has no entries to read.\<close>

definition with_path_to :: "env \<Rightarrow> query \<Rightarrow> argval \<Rightarrow> bool \<Rightarrow> string \<Rightarrow> error + query" where
  "with_path_to env q val any name =
     (case (case val of
              ObjList entries \<Rightarrow> with_path_to_entries env any name entries q []
            | ScalarList [] \<Rightarrow> Inr (q, [])
            | other \<Rightarrow> Inl TypeError) of
        Inl e \<Rightarrow> Inl e
      | Inr (q1, union_qs) \<Rightarrow>
          (case union_qs of
             union_q # rest \<Rightarrow> Inr (if any then foldl q_union union_q rest else q1)
           | [] \<Rightarrow> Inr (if any then q_filter q1 (\<lambda>r. sql_false) else q1)))"

text \<open>Lines 327 to 338 of \<open>apply_query_args\<close>.\<close>

definition apply_arg_with_path_to :: "env \<Rightarrow> query \<Rightarrow> args \<Rightarrow> error + query" where
  "apply_arg_with_path_to env q args =
     (case map_of args ''with_path_to'' of
        None \<Rightarrow> Inr q
      | Some v \<Rightarrow> with_path_to env q v False ''with_path_to'')"


definition apply_arg_without_path_to :: "env \<Rightarrow> query \<Rightarrow> args \<Rightarrow> error + query" where
  "apply_arg_without_path_to env q args =
     (case map_of args ''without_path_to'' of
        None \<Rightarrow> Inr q
      | Some v \<Rightarrow>
          (case with_path_to env q v False ''without_path_to'' of
             Inl e \<Rightarrow> Inl e
           | Inr w \<Rightarrow> Inr (q_except q w)))"

text \<open>Lines 340 to 343 of \<open>apply_query_args\<close>.\<close>

definition apply_arg_project_id :: "env \<Rightarrow> query \<Rightarrow> args \<Rightarrow> error + query" where
  "apply_arg_project_id env q args =
     (case map_of args ''project_id'' of
        None \<Rightarrow> Inr q
      | Some v \<Rightarrow> if q_entity q = ''project'' then filter_project_project_id env q v else Inr q)"

section \<open>node.py: property, id and quick-search filters\<close>

text \<open>Line 232: \<open>val if isinstance(val, list) else [val]\<close>, for scalar elements.\<close>

fun scalar_items :: "argval \<Rightarrow> error + scalar list" where
  "scalar_items (Scalar s) = Inr [s]"
| "scalar_items (ScalarList xs) = Inr xs"
| "scalar_items (ObjList ds) = Inl TypeError"

text \<open>Lines 228 to 248: the filter of one key that is a declared property.\<close>

definition apply_prop_filter :: "schema \<Rightarrow> query \<Rightarrow> string \<Rightarrow> argval \<Rightarrow> error + query" where
  "apply_prop_filter sch q key v =
     (case scalar_items v of
        Inl e \<Rightarrow> Inl e
      | Inr val \<Rightarrow>
          (case map_of (pg_properties (sch (q_entity q))) key of
             None \<Rightarrow> Inl (KeyError key)
           | Some TList \<Rightarrow>
               (case str_items val of
                  Inl e \<Rightarrow> Inl e
                | Inr vs \<Rightarrow>
                    Inr (q_filter q (\<lambda>r. sql_and (map (\<lambda>v. sql_like (col_astext (q_entity q) key r)
                                                                ([CHR ''%'', CHR 0x22] @ v @ [CHR 0x22, CHR ''%'']))
                                                      vs))))
           | Some TBool \<Rightarrow>
               Inr (q_filter q (\<lambda>r. sql_in (col_astext (q_entity q) key r) (map (\<lambda>v. lower (py_str v)) val)))
           | Some other \<Rightarrow>
               Inr (q_filter q (\<lambda>r. sql_in (col_astext (q_entity q) key r) (map py_str val)))))"

text \<open>
  Lines 224 to 248: the keys of the arguments that are declared properties of the class the
  query was made for.
\<close>

fun apply_prop_filters :: "schema \<Rightarrow> string list \<Rightarrow> query \<Rightarrow> args \<Rightarrow> error + query" where
  "apply_prop_filters sch pg_props q [] = Inr q"
| "apply_prop_filters sch pg_props q (arg # rest) =
     (if fst arg \<in> set pg_props then
        (case apply_prop_filter sch q (fst arg) (snd arg) of
           Inl e \<Rightarrow> Inl e
         | Inr q1 \<Rightarrow> apply_prop_filters sch pg_props q1 rest)
      else apply_prop_filters sch pg_props q rest)"

definition apply_arg_props :: "schema \<Rightarrow> query \<Rightarrow> args \<Rightarrow> error + query" where
  "apply_arg_props sch q args =
     apply_prop_filters sch (map fst (pg_properties (sch (q_entity q)))) q args"

text \<open>Lines 258 to 264 of \<open>apply_query_args\<close>.\<close>

definition apply_arg_ids :: "query \<Rightarrow> args \<Rightarrow> error + query" where
  "apply_arg_ids q args =
     (case (case map_of args ''id'' of None \<Rightarrow> Inr q | Some v \<Rightarrow> q_ids q v) of
        Inl e \<Rightarrow> Inl e
      | Inr q1 \<Rightarrow> (case map_of args ''ids'' of None \<Rightarrow> Inr q1 | Some v \<Rightarrow> q_ids q1 v))"

text \<open>
  \<open>q.order_by(key)\<close> for a key that is a length: ascending, rows without a value last.
\<close>

definition q_order_by :: "query \<Rightarrow> (joinrow \<Rightarrow> nat option) \<Rightarrow> query" where
  "q_order_by q key =
     q\<lparr>q_rows := sort_key (\<lambda>r. case key r of None \<Rightarrow> 0 | Some n \<Rightarrow> n) (filter (\<lambda>r. key r \<noteq> None) (q_rows q))
                  @ filter (\<lambda>r. key r = None) (q_rows q)\<rparr>"

text \<open>Python's \<open>not search_phrase\<close>.\<close>

fun falsy :: "argval \<Rightarrow> bool" where
  "falsy (Scalar (SStr s)) = (s = [])"
| "falsy (Scalar (SBool b)) = (\<not> b)"
| "falsy (Scalar (SInt i)) = (i = 0)"
| "falsy (Scalar (SFloat t)) = (t = ''0.0'' \<or> t = ''-0.0'')"
| "falsy (ScalarList xs) = (xs = [])"
| "falsy (ObjList ds) = (ds = [])"

text \<open>
  Lines 168 to 213. Line 211 calls \<open>q.order_by\<close> and drops the query it returns; the
  query returned is the union.
\<close>

definition apply_arg_quicksearch :: "query \<Rightarrow> args \<Rightarrow> error + query" where
  "apply_arg_quicksearch q args =
     (case map_of args ''quick_search'' of
        None \<Rightarrow> Inr q
      | Some v \<Rightarrow>
          if falsy v then Inr q
          else
            (case v of
               Scalar (SStr phrase) \<Rightarrow>
                 (let search_phrase = lower phrase;
                      cls = q_entity q;
                      node_id_query = q_filter q (\<lambda>r. sql_contains (sql_lower (col_node_id cls r)) search_phrase);
                      sub_id_query = q_filter q (\<lambda>r. sql_contains (sql_lower (col_astext cls ''submitter_id'' r)) search_phrase);
                      q1 = q_union node_id_query sub_id_query;
                      dropped = q_order_by q1 (\<lambda>r. map_option length (col_astext cls ''submitter_id'' r))
                  in Inr q1)
             | other \<Rightarrow> Inl (AttributeError ''lower'')))"

section \<open>Pagination\<close>

definition DEFAULT_LIMIT :: int where
  "DEFAULT_LIMIT = 10"

text \<open>The value of an \<open>Int\<close> argument, or the default when the key is absent.\<close>

definition int_arg :: "args \<Rightarrow> string \<Rightarrow> int \<Rightarrow> error + int" where
  "int_arg args key dflt =
     (case map_of args key of
        None \<Rightarrow> Inr dflt
      | Some (Scalar (SInt k)) \<Rightarrow> Inr k
      | Some other \<Rightarrow> Inl TypeError)"

text \<open>util.py, lines 206 to 217.\<close>

definition apply_arg_limit :: "query \<Rightarrow> args \<Rightarrow> error + query" where
  "apply_arg_limit q args =
     (case int_arg args ''first'' DEFAULT_LIMIT of
        Inl e \<Rightarrow> Inl e
      | Inr limit \<Rightarrow> Inr (if limit > 0 then q_limit_set q (Some (nat limit)) else q))"

definition apply_arg_offset :: "query \<Rightarrow> args \<Rightarrow> error + query" where
  "apply_arg_offset q args =
     (case int_arg args ''offset'' 0 of
        Inl e \<Rightarrow> Inl e
      | Inr offset \<Rightarrow> Inr (if offset > 0 then q_offset_set q (nat offset) else q))"

text \<open>Lines 373 to 377 of \<open>apply_query_args\<close>.\<close>

definition apply_arg_first_offset :: "query \<Rightarrow> args \<Rightarrow> error + query" where
  "apply_arg_first_offset q args =
     (case apply_arg_limit (from_self q) args of
        Inl e \<Rightarrow> Inl e
      | Inr q1 \<Rightarrow> apply_arg_offset q1 args)"

section \<open>node.py: the count batcher\<close>

text \<open>
  \<open>_project_ids\<close> maps a project id to its placeholder name; \<open>_queries\<close> holds the key,
  the promise and the subquery text of each pooled count. A promise is known by its number.
\<close>

record node_counter =
  nc_project_ids :: "(string \<times> string) list"
  nc_queries :: "(string \<times> nat \<times> string) list"

datatype count_result = NoCount | Count int | Deferred nat

text \<open>Lines 887 to 892: the project id when it is one string.\<close>

fun single_project_id :: "argval \<Rightarrow> string option" where
  "single_project_id (Scalar (SStr s)) = Some s"
| "single_project_id (ScalarList [SStr s]) = Some s"
| "single_project_id other = None"

text \<open>Lines 876 to 913: the value returned (or the error raised) and the counter left.\<close>

definition add_count :: "env \<Rightarrow> node_counter \<Rightarrow> string \<Rightarrow> args \<Rightarrow> (error + count_result) \<times> node_counter" where
  "add_count env self cls args =
     (if cls \<noteq> ''node'' \<and> \<not> hasattr (e_schema env) cls ''project_id'' then (Inr NoCount, self)
      else if cls = ''project'' then (Inr NoCount, self)
      else if map fst args \<noteq> [''project_id''] then (Inr NoCount, self)
      else
        (case single_project_id (snd (hd args)) of
           None \<Rightarrow> (Inr NoCount, self)
         | Some project_id \<Rightarrow>
             if project_id \<notin> set (read_access_projects env) then (Inr (Count 0), self)
             else
               (let named = (case map_of (nc_project_ids self) project_id of
                               None \<Rightarrow> self\<lparr>nc_project_ids := nc_project_ids self
                                          @ [(project_id, ''p_'' @ str_nat (length (nc_project_ids self)))]\<rparr>
                             | Some n \<Rightarrow> self);
                    project_id_name = (case map_of (nc_project_ids self) project_id of
                                         None \<Rightarrow> ''p_'' @ str_nat (length (nc_project_ids self))
                                       | Some n \<Rightarrow> n);
                    key = ''c_'' @ str_nat (length (nc_queries self));
                    p = length (nc_queries self)
                in case tablename (e_schema env cls) of
                     None \<Rightarrow> (Inl (AttributeError ''__tablename__''), named)
                   | Some t \<Rightarrow>
                       (Inr (Deferred p),
                        named\<lparr>nc_queries := nc_queries named
                          @ [(key, p, ''(SELECT count(*) FROM '' @ t @ '' WHERE _props->>'' @ [CHR 0x27]
                                      @ ''project_id'' @ [CHR 0x27] @ '' = :'' @ project_id_name @ '') AS '' @ key)]\<rparr>))))"

section \<open>node.py: the arguments a field declares\<close>









section \<open>Notions used to state the properties\<close>

text \<open>Every row of the query selects an entity of the class \<open>c\<close>.\<close>

definition rooted :: "string \<Rightarrow> query \<Rightarrow> bool" where
  "rooted c q \<longleftrightarrow> (\<forall>r \<in> set (q_rows q). root_cls r = c)"

text \<open>The query has neither \<open>LIMIT\<close> nor \<open>OFFSET\<close>.\<close>

definition unlimited :: "query \<Rightarrow> bool" where
  "unlimited q \<longleftrightarrow> q_limit q = None \<and> q_offset q = None"

text \<open>The text of a node's own scope attribute.\<close>

definition own_project_id :: "node \<Rightarrow> string option" where
  "own_project_id n = (case map_of (props n) ''project_id'' of None \<Rightarrow> None | Some v \<Rightarrow> astext v)"

text \<open>The ids that an \<open>id\<close> or \<open>ids\<close> argument names.\<close>

fun id_values :: "argval \<Rightarrow> string list option" where
  "id_values (Scalar s) = Some [py_str s]"
| "id_values (ScalarList xs) = (case str_items xs of Inl e \<Rightarrow> None | Inr ss \<Rightarrow> Some ss)"
| "id_values (ObjList ds) = None"

text \<open>
  A project node matches a listed id cut at its first hyphen, as line 71 cuts it: the code of
  the node is the part after that hyphen and one of its programs has the part before it as
  name. An id without a hyphen matches no node.
\<close>

definition project_matches :: "graph \<Rightarrow> node \<Rightarrow> string \<Rightarrow> bool" where
  "project_matches g n project_id =
     (case split_hyphen project_id of
        [program_name, project_code] \<Rightarrow>
          jsonb_contains (props n) ''code'' (Scalar (SStr project_code))
          \<and> (\<exists>p \<in> set (linked g n ''programs''). jsonb_contains (props p) ''name'' (Scalar (SStr program_name)))
      | _ \<Rightarrow> False)"

section \<open>A small dictionary and graph\<close>

definition no_class :: pgclass where
  "no_class = \<lparr>pg_properties = [], pg_links = [], pg_backrefs = [], pg_edges = [], tablename = None\<rparr>"

definition ex_schema :: schema where
  "ex_schema c =
     (if c = ''program'' then
        \<lparr>pg_properties = [(''name'', TStr)], pg_links = [], pg_backrefs = [(''projects'', ''project'')],
         pg_edges = [(''projects'', ''project'')], tablename = Some ''node_program''\<rparr>
      else if c = ''project'' then
        \<lparr>pg_properties = [(''code'', TStr), (''state'', TStr)], pg_links = [(''programs'', ''program'')],
         pg_backrefs = [(''cases'', ''case'')],
         pg_edges = [(''programs'', ''program''), (''cases'', ''case'')], tablename = Some ''node_project''\<rparr>
      else if c = ''case'' then
        \<lparr>pg_properties = [(''project_id'', TStr), (''submitter_id'', TStr)], pg_links = [(''projects'', ''project'')],
         pg_backrefs = [(''samples'', ''sample''), (''persons'', ''person'')],
         pg_edges = [(''projects'', ''project''), (''samples'', ''sample''), (''persons'', ''person'')],
         tablename = Some ''node_case''\<rparr>
      else if c = ''person'' then
        \<lparr>pg_properties = [(''project_id'', TStr), (''submitter_id'', TStr)], pg_links = [(''cases'', ''case'')],
         pg_backrefs = [], pg_edges = [(''cases'', ''case'')], tablename = Some ''node_person''\<rparr>
      else if c = ''sample'' then
        \<lparr>pg_properties = [(''project_id'', TStr), (''submitter_id'', TStr), (''consent_codes'', TList)],
         pg_links = [(''cases'', ''case'')], pg_backrefs = [],
         pg_edges = [(''cases'', ''case'')], tablename = Some ''node_sample''\<rparr>
      else no_class)"

definition ex_program :: node where
  "ex_program = \<lparr>node_id = ''pg1'', label = ''program'', props = [(''name'', JStr ''prog'')]\<rparr>"

definition ex_project :: node where
  "ex_project = \<lparr>node_id = ''pr1'', label = ''project'',
                  props = [(''code'', JStr ''P1''), (''state'', JStr ''closed'')]\<rparr>"

definition ex_case :: node where
  "ex_case = \<lparr>node_id = ''c1'', label = ''case'',
               props = [(''project_id'', JStr ''prog-P1''), (''submitter_id'', JStr ''case-1'')]\<rparr>"

definition ex_person :: node where
  "ex_person = \<lparr>node_id = ''h1'', label = ''person'',
                 props = [(''project_id'', JStr ''prog-P1''), (''submitter_id'', JStr ''person-1'')]\<rparr>"

definition ex_sample :: node where
  "ex_sample = \<lparr>node_id = ''s1'', label = ''sample'',
                 props = [(''project_id'', JStr ''prog-P2''), (''submitter_id'', JStr ''sample-1''),
                          (''consent_codes'', JList [''axb''])]\<rparr>"

definition ex_sample2 :: node where
  "ex_sample2 = \<lparr>node_id = ''s2'', label = ''sample'',
                  props = [(''project_id'', JStr ''prog-P1''), (''submitter_id'', JStr ''sample-2'')]\<rparr>"

definition ex_graph :: graph where
  "ex_graph = \<lparr>g_nodes = [ex_program, ex_project, ex_case, ex_person, ex_sample, ex_sample2],
                g_edges = [(''pr1'', ''programs'', ''pg1''), (''c1'', ''projects'', ''pr1''),
                           (''c1'', ''persons'', ''h1''), (''s1'', ''cases'', ''c1''),
                           (''c1'', ''samples'', ''s1'')]\<rparr>"

text \<open>
  The caller may read the project \<open>prog-P1\<close>; the case is the authorization class and the
  person the subject class.
\<close>

definition ex_env :: env where
  "ex_env = \<lparr>e_schema = ex_schema, e_graph = ex_graph,
              node_authz_entity = Some ''case'', subject_entity = Some ''person'',
              read_access_permissions = [(''prog-P1'', [''*''])],
              read_access_projects = [''prog-P1''],
              case_cache_enabled = True,
              graph_traversals = (\<lambda>src dst. if src = ''sample'' \<and> dst = ''case'' then [[''cases'']] else [])\<rparr>"

text \<open>The same request with the case cache switched off.\<close>

definition ex_env_nocache :: env where
  "ex_env_nocache = ex_env\<lparr>case_cache_enabled := False\<rparr>"

text \<open>A traversal to the case \<open>c1\<close>.\<close>

definition ex_to_case :: argval where
  "ex_to_case = ObjList [[(''type'', Scalar (SStr ''case'')), (''id'', Scalar (SStr ''c1''))]]"

definition ex_rows :: query where
  "ex_rows = mk_query ''case''
     [\<lparr>node_id = ''c1'', label = ''case'', props = []\<rparr>,
      \<lparr>node_id = ''c2'', label = ''case'', props = []\<rparr>,
      \<lparr>node_id = ''c3'', label = ''case'', props = []\<rparr>,
      \<lparr>node_id = ''c4'', label = ''case'', props = []\<rparr>]"

definition ex_long :: node where
  "ex_long = \<lparr>node_id = ''ab12-x'', label = ''sample'', props = [(''submitter_id'', JStr ''sample-AB12-long'')]\<rparr>"

definition ex_short :: node where
  "ex_short = \<lparr>node_id = ''n2'', label = ''sample'', props = [(''submitter_id'', JStr ''AB12'')]\<rparr>"

text \<open>The case query after the join to its persons, and what the caller may see of it.\<close>

definition ex_case_joined :: query where
  "ex_case_joined = reset_joinpoint (q_join ex_graph (db_nodes ex_graph ''case'') ''persons'' ''person'')"

definition ex_case_authorized :: query where
  "ex_case_authorized = q_filter ex_case_joined (\<lambda>r. sql_eq (col_astext ''case'' ''project_id'' r) ''prog-P1'')"

section \<open>Properties\<close>

subsection \<open>Queries, filters and joins\<close>

lemma sql_and_True: "sql_and ts = Some True \<longleftrightarrow> (\<forall>t \<in> set ts. t = Some True)"
proof (cases "Some False \<in> set ts")
  case True
  then show ?thesis by (auto simp: sql_and_def)
next
  case nf: False
  show ?thesis
  proof (cases "None \<in> set ts")
    case True
    then show ?thesis using nf by (auto simp: sql_and_def)
  next
    case False
    have "t = Some True" if "t \<in> set ts" for t
    proof (cases t)
      case None
      then show ?thesis using False that by simp
    next
      case (Some b)
      then show ?thesis using nf that by (cases b) simp_all
    qed
    then show ?thesis using nf False by (simp add: sql_and_def)
  qed
qed

lemma sql_or_True: "sql_or ts = Some True \<longleftrightarrow> Some True \<in> set ts"
  by (auto simp: sql_or_def)

lemma sql_eq_True: "sql_eq c v = Some True \<longleftrightarrow> c = Some v"
  by (cases c) (auto simp: sql_eq_def)

lemma set_unique_list: "set (unique_list xs) = set xs"
  by (simp add: unique_list_def)

lemma length_unique_list: "length (unique_list xs) \<le> length xs"
proof -
  have "length (remdups (rev xs)) \<le> length (rev xs)" by (rule length_remdups_leq)
  then show ?thesis by (simp add: unique_list_def)
qed

lemma q_rows_filter: "q_rows (q_filter q p) = filter (\<lambda>r. p r = Some True) (q_rows q)"
  by (simp add: q_filter_def)

lemma q_entity_filter: "q_entity (q_filter q p) = q_entity q"
  by (simp add: q_entity_def q_filter_def)

lemma q_select_subset: "set (q_select q) \<subseteq> root ` set (q_rows q)"
proof -
  let ?xs = "map root (q_rows q)"
  let ?sk = "case q_offset q of None \<Rightarrow> ?xs | Some m \<Rightarrow> drop m ?xs"
  have a: "set ?sk \<subseteq> set ?xs"
    by (cases "q_offset q") (auto dest: in_set_dropD)
  have b: "set (q_select q) \<subseteq> set ?sk"
    by (cases "q_limit q") (auto simp: q_select_def Let_def dest: in_set_takeD)
  have "set ?xs = root ` set (q_rows q)" by simp
  then show ?thesis using a b by blast
qed

lemma q_all_subset: "set (q_all q) \<subseteq> root ` set (q_rows q)"
  using q_select_subset[of q] by (simp add: q_all_def set_unique_list)

lemma rooted_filter: "rooted c q \<Longrightarrow> rooted c (q_filter q p)"
  by (simp add: rooted_def q_filter_def)

lemma rooted_reset: "rooted c q \<Longrightarrow> rooted c (reset_joinpoint q)"
  by (simp add: rooted_def reset_joinpoint_def)

lemma rooted_join: "rooted c q \<Longrightarrow> rooted c (q_join g q e dst)"
  by (auto simp: rooted_def q_join_def split: option.splits)

lemma rooted_path_names: "rooted c q \<Longrightarrow> q_path_names sch g es q = Inr q1 \<Longrightarrow> rooted c q1"
  by (induction es arbitrary: q) (auto split: option.splits intro: rooted_join)

lemma rooted_path: "rooted c q \<Longrightarrow> q_path sch g es q = Inr q1 \<Longrightarrow> rooted c q1"
  by (auto simp: q_path_def split: if_splits intro: rooted_path_names)

lemma rooted_db_nodes: "rooted c (db_nodes g c)"
  by (simp add: rooted_def db_nodes_def mk_query_def mk_row_def)

subsection \<open>The authorization filter on scoped classes\<close>

lemma rooted_join_persons: "rooted c q \<Longrightarrow> join_persons env q cls = Inr (q1, cls', sub) \<Longrightarrow> rooted c q1"
  by (auto simp: join_persons_def split: if_splits sum.splits intro: rooted_reset rooted_path)

lemma rooted_join_authz:
  assumes "rooted c q" and "join_authz env q = Some (Inr (q1, cls, sub))"
  shows "rooted c q1"
proof -
  have p: "\<And>es qa. q_path (e_schema env) (e_graph env) es q = Inr qa \<Longrightarrow> rooted c qa"
    using rooted_path[OF assms(1)] .
  have jp: "\<And>qa cl. rooted c qa \<Longrightarrow> join_persons env qa cl = Inr (q1, cls, sub) \<Longrightarrow> rooted c q1"
    by (rule rooted_join_persons)
  show ?thesis
  proof (cases "node_authz_entity env")
    case None
    then show ?thesis using assms by (simp add: join_authz_def)
  next
    case (Some a)
    show ?thesis
    proof (cases "q_entity q \<noteq> ''project'' \<and> q_entity q \<noteq> ''program'' \<and> Some (q_entity q) \<noteq> subject_entity env")
      case False
      then show ?thesis using assms Some by (auto simp: join_authz_def Let_def)
    next
      case outer: True
      show ?thesis
      proof (cases "q_entity q = a")
        case True
        then have "join_persons env q (q_entity q) = Inr (q1, cls, sub)"
          using assms(2) Some outer by (simp add: join_authz_def Let_def)
        then show ?thesis using jp assms(1) by blast
      next
        case False
        then obtain link rest w where
          l: "pg_links (e_schema env (q_entity q)) = link # rest"
          and w: "walk_parents (e_schema env) a (snd link) [fst link] = Some (Inr w)"
          using assms(2) Some outer
          by (auto simp: join_authz_def Let_def split: list.splits option.splits sum.splits)
        obtain path_tmp tmp where wp: "w = (path_tmp, tmp)" by (cases w)
        show ?thesis
        proof (cases "tmp = a")
          case True
          then obtain qa where "q_path (e_schema env) (e_graph env) path_tmp q = Inr qa"
            and "join_persons env qa (q_entity qa) = Inr (q1, cls, sub)"
            using assms(2) Some outer False l w wp
            by (auto simp: join_authz_def Let_def split: sum.splits)
          then show ?thesis using p jp by blast
        next
          case ne: False
          then have "join_persons env q (q_entity q) = Inr (q1, cls, sub)"
            using assms(2) Some outer False l w wp
            by (simp add: join_authz_def Let_def)
          then show ?thesis using jp assms(1) by blast
        qed
      qed
    qed
  qed
qed

lemma scope_group_key:
  assumes "scope_group env cls sub key val q = Inr (q1, grp)" and "grp r = Some True"
  shows "col_astext cls ''project_id'' r = Some key"
  using assms
  by (auto simp: scope_group_def Let_def sql_and_True sql_eq_True split: if_splits option.splits sum.splits)

lemma rooted_scope_group:
  assumes "rooted c q" and "scope_group env cls sub key val q = Inr (q1, grp)"
  shows "rooted c q1"
  using assms
  by (auto simp: scope_group_def Let_def split: if_splits option.splits sum.splits
      intro: rooted_reset rooted_path)

lemma scope_groups_keys:
  assumes "scope_groups env cls sub perms q ands = Inr (q1, ands')"
    and "\<forall>p \<in> set ands. \<forall>r. p r = Some True \<longrightarrow> (\<exists>k \<in> K. col_astext cls ''project_id'' r = Some k)"
    and "fst ` set perms \<subseteq> K"
  shows "\<forall>p \<in> set ands'. \<forall>r. p r = Some True \<longrightarrow> (\<exists>k \<in> K. col_astext cls ''project_id'' r = Some k)"
  using assms
proof (induction perms arbitrary: q ands)
  case Nil
  then show ?case by simp
next
  case (Cons item perms)
  from Cons.prems(1) obtain q0 grp where
    g: "scope_group env cls sub (fst item) (snd item) q = Inr (q0, grp)"
    and rest: "scope_groups env cls sub perms q0 (ands @ [grp]) = Inr (q1, ands')"
    by (auto split: sum.splits)
  have fk: "fst item \<in> K" using Cons.prems(3) by simp
  have grp: "\<forall>r. grp r = Some True \<longrightarrow> (\<exists>k \<in> K. col_astext cls ''project_id'' r = Some k)"
    using scope_group_key[OF g] fk by blast
  have inv: "\<forall>p \<in> set (ands @ [grp]). \<forall>r. p r = Some True \<longrightarrow> (\<exists>k \<in> K. col_astext cls ''project_id'' r = Some k)"
    using Cons.prems(2) grp by simp
  have sub: "fst ` set perms \<subseteq> K" using Cons.prems(3) by simp
  show ?case by (rule Cons.IH[OF rest inv sub])
qed

lemma scope_groups_length:
  "scope_groups env cls sub perms q ands = Inr (q1, ands') \<Longrightarrow> length ands' = length ands + length perms"
  by (induction perms arbitrary: q ands) (auto split: sum.splits)

lemma rooted_scope_groups:
  "rooted c q \<Longrightarrow> scope_groups env cls sub perms q ands = Inr (q1, ands') \<Longrightarrow> rooted c q1"
  by (induction perms arbitrary: q ands) (auto split: sum.splits intro: rooted_scope_group)

lemma scope_filter_rows:
  assumes "scope_filter env q cls sub = Inr q2" and "cls = ''node'' \<or> hasattr (e_schema env) cls ''project_id''"
  shows "\<forall>r \<in> set (q_rows q2). \<exists>k \<in> fst ` set (read_access_permissions env). col_astext cls ''project_id'' r = Some k"
proof (cases "read_access_permissions env = []")
  case True
  then show ?thesis using assms by (auto simp: scope_filter_def q_filter_def sql_false_def)
next
  case False
  then obtain q1 ands where
    gs: "scope_groups env cls sub (read_access_permissions env) q [] = Inr (q1, ands)"
    and q2: "q2 = (if ands \<noteq> [] then q_filter q1 (\<lambda>r. sql_or (map (\<lambda>p. p r) ands)) else q1)"
    using assms by (auto simp: scope_filter_def split: sum.splits if_splits)
  have "length ands = length (read_access_permissions env)"
    using scope_groups_length[OF gs] by simp
  then have ne: "ands \<noteq> []" using False by auto
  have keys: "\<forall>p \<in> set ands. \<forall>r. p r = Some True \<longrightarrow>
      (\<exists>k \<in> fst ` set (read_access_permissions env). col_astext cls ''project_id'' r = Some k)"
    by (rule scope_groups_keys[OF gs]) auto
  show ?thesis
  proof
    fix r assume "r \<in> set (q_rows q2)"
    then have "sql_or (map (\<lambda>p. p r) ands) = Some True"
      using q2 ne by (simp add: q_rows_filter)
    then obtain p where "p \<in> set ands" "p r = Some True"
      by (auto simp: sql_or_True)
    then show "\<exists>k \<in> fst ` set (read_access_permissions env). col_astext cls ''project_id'' r = Some k"
      using keys by blast
  qed
qed

lemma scope_filter_rooted:
  assumes "rooted c q" and "scope_filter env q cls sub = Inr q2"
  shows "rooted c q2"
proof -
  have groups: "\<And>k q1 ands. scope_groups env k sub (read_access_permissions env) q [] = Inr (q1, ands) \<Longrightarrow> rooted c q1"
    using assms(1) by (rule rooted_scope_groups)
  show ?thesis
    using assms
    by (auto simp: scope_filter_def split: if_splits sum.splits dest: groups intro!: rooted_filter)
qed

text \<open>
  C1, as the code has it. The filter tests the scope attribute of the class \<open>cls\<close> that
  lines 131 to 155 leave: the queried class itself, or the class at the end of the parent
  chain that was joined. When that class is scoped and is not the project, every row of the
  authorized query carries, at \<open>cls\<close>, a scope key of the permission map; with an empty map
  the query returns no rows. When \<open>cls\<close> is the queried class, as it is when no
  authorization class is configured, every returned node has its own scope key in the map.
\<close>

theorem authorized_scope:
  assumes "join_authz env (db_nodes (e_graph env) c) = Some (Inr (q1, cls, sub_cls))"
    and "cls = ''node'' \<or> hasattr (e_schema env) cls ''project_id''"
    and "cls \<noteq> ''project''"
    and "get_authorized_query env c = Some (Inr q')"
  shows "(\<forall>r \<in> set (q_rows q'). \<exists>key \<in> fst ` set (read_access_permissions env). col_astext cls ''project_id'' r = Some key)
       \<and> (read_access_permissions env = [] \<longrightarrow> q_all q' = [])
       \<and> (cls = c \<longrightarrow> (\<forall>n \<in> set (q_all q'). \<exists>key \<in> fst ` set (read_access_permissions env). own_project_id n = Some key))
       \<and> (node_authz_entity env = None \<longrightarrow> cls = c)"
proof -
  have sf: "scope_filter env q1 cls sub_cls = Inr q'"
    using assms(1,3,4) by (auto simp: get_authorized_query_def authorization_filter_def split: sum.splits)
  have rows: "\<forall>r \<in> set (q_rows q'). \<exists>key \<in> fst ` set (read_access_permissions env). col_astext cls ''project_id'' r = Some key"
    by (rule scope_filter_rows[OF sf assms(2)])
  have empty: "read_access_permissions env = [] \<longrightarrow> q_all q' = []"
  proof
    assume "read_access_permissions env = []"
    then have "q_rows q' = []" using rows by (cases "q_rows q'") auto
    then show "q_all q' = []" using q_all_subset[of q'] by simp
  qed
  have "rooted c q1"
    by (rule rooted_join_authz[OF rooted_db_nodes assms(1)])
  then have rt: "rooted c q'" by (rule scope_filter_rooted[OF _ sf])
  have own: "cls = c \<longrightarrow> (\<forall>n \<in> set (q_all q'). \<exists>key \<in> fst ` set (read_access_permissions env). own_project_id n = Some key)"
  proof (intro impI ballI)
    fix n assume c: "cls = c" and "n \<in> set (q_all q')"
    then obtain r where r: "r \<in> set (q_rows q')" "n = root r" using q_all_subset by blast
    then obtain key where k: "key \<in> fst ` set (read_access_permissions env)" "col_astext cls ''project_id'' r = Some key"
      using rows by blast
    have "root_cls r = c" using rt r(1) by (simp add: rooted_def)
    then have "col_astext cls ''project_id'' r = own_project_id n"
      using c r(2) by (simp add: col_astext_def entity_of_def own_project_id_def)
    then have "own_project_id n = Some key" using k(2) by simp
    then show "\<exists>key \<in> fst ` set (read_access_permissions env). own_project_id n = Some key"
      using k(1) by blast
  qed
  have none: "node_authz_entity env = None \<longrightarrow> cls = c"
    using assms(1) by (auto simp: join_authz_def Let_def q_entity_def db_nodes_def mk_query_def)
  show ?thesis using rows empty own none by blast
qed

theorem authorized_scope_witness:
  "join_authz ex_env (db_nodes (e_graph ex_env) ''case'') = Some (Inr (ex_case_joined, ''case'', Some ''person''))
   \<and> (''case'' = ''node'' \<or> hasattr (e_schema ex_env) ''case'' ''project_id'')
   \<and> ''case'' \<noteq> ''project''
   \<and> get_authorized_query ex_env ''case'' = Some (Inr ex_case_authorized)
   \<and> q_all ex_case_authorized = [ex_case]
   \<and> (\<exists>key \<in> fst ` set (read_access_permissions ex_env). own_project_id ex_case = Some key)"
proof -
  have h1: "join_authz ex_env (db_nodes (e_graph ex_env) ''case'') = Some (Inr (ex_case_joined, ''case'', Some ''person''))"
    by code_simp
  have h2: "''case'' = ''node'' \<or> hasattr (e_schema ex_env) ''case'' ''project_id''"
    by code_simp
  have h3: "''case'' \<noteq> ''project''" by simp
  have h4: "get_authorized_query ex_env ''case'' = Some (Inr ex_case_authorized)"
    by code_simp
  have rows: "q_all ex_case_authorized = [ex_case]" by code_simp
  have "\<forall>n \<in> set (q_all ex_case_authorized).
          \<exists>key \<in> fst ` set (read_access_permissions ex_env). own_project_id n = Some key"
    using authorized_scope[OF h1 h2 h3 h4] by blast
  then have "\<exists>key \<in> fst ` set (read_access_permissions ex_env). own_project_id ex_case = Some key"
    using rows by simp
  then show ?thesis using h1 h2 h3 h4 rows by blast
qed

text \<open>
  C1 as stated fails where the parent chain is joined: the sample of project \<open>prog-P2\<close>
  hangs on a case of project \<open>prog-P1\<close>, the caller's map has \<open>prog-P1\<close> only, and the
  authorized query for samples returns the sample.
\<close>

theorem authorized_sample_outside_map:
  "map_option (map_sum id q_all) (get_authorized_query ex_env ''sample'') = Some (Inr [ex_sample])
   \<and> own_project_id ex_sample = Some ''prog-P2''
   \<and> ''prog-P2'' \<notin> fst ` set (read_access_permissions ex_env)"
  by code_simp

subsection \<open>The id filters\<close>

lemma q_ids_rows:
  assumes "id_values v = Some ss"
  shows "q_ids q v = Inr (q_filter q (\<lambda>r. sql_in (col_node_id (q_entity q) r) ss))"
proof (cases v)
  case (Scalar s)
  then show ?thesis using assms by (auto simp: q_ids_def sql_eq_def sql_in_def)
next
  case (ScalarList xs)
  then show ?thesis using assms by (auto simp: q_ids_def split: sum.splits)
next
  case (ObjList ds)
  then show ?thesis using assms by simp
qed

text \<open>
  C10: with both \<open>id\<close> and \<open>ids\<close> in the arguments, a row stays exactly when its id is
  named by the one and by the other; when they name no common id the query returns nothing.
\<close>

theorem id_and_ids_conjunction:
  assumes "map_of args ''id'' = Some v1" and "map_of args ''ids'' = Some v2"
    and "id_values v1 = Some s1" and "id_values v2 = Some s2"
  shows "\<exists>q'. apply_arg_ids q args = Inr q'
           \<and> (\<forall>r. r \<in> set (q_rows q') \<longleftrightarrow>
                 r \<in> set (q_rows q) \<and> (\<exists>i \<in> set s1 \<inter> set s2. col_node_id (q_entity q) r = Some i))
           \<and> (set s1 \<inter> set s2 = {} \<longrightarrow> q_all q' = [])"
proof -
  let ?q1 = "q_filter q (\<lambda>r. sql_in (col_node_id (q_entity q) r) s1)"
  let ?q2 = "q_filter ?q1 (\<lambda>r. sql_in (col_node_id (q_entity q) r) s2)"
  have run: "apply_arg_ids q args = Inr ?q2"
    using assms by (simp add: apply_arg_ids_def q_ids_rows q_entity_filter)
  have rows: "r \<in> set (q_rows ?q2) \<longleftrightarrow>
      r \<in> set (q_rows q) \<and> (\<exists>i \<in> set s1 \<inter> set s2. col_node_id (q_entity q) r = Some i)" for r
    by (cases "col_node_id (q_entity q) r") (auto simp: q_rows_filter sql_in_def)
  have none: "set s1 \<inter> set s2 = {} \<longrightarrow> q_all ?q2 = []"
  proof
    assume "set s1 \<inter> set s2 = {}"
    then have "r \<notin> set (q_rows ?q2)" for r using rows by blast
    then have "q_rows ?q2 = []" by (cases "q_rows ?q2") auto
    then show "q_all ?q2 = []" using q_all_subset[of ?q2] by simp
  qed
  show ?thesis using run rows none by blast
qed

theorem id_and_ids_conjunction_witness:
  "map_of [(''id'', Scalar (SStr ''c2'')), (''ids'', ScalarList [SStr ''c2'', SStr ''c3''])] ''id'' = Some (Scalar (SStr ''c2''))
   \<and> map_of [(''id'', Scalar (SStr ''c2'')), (''ids'', ScalarList [SStr ''c2'', SStr ''c3''])] ''ids''
        = Some (ScalarList [SStr ''c2'', SStr ''c3''])
   \<and> id_values (Scalar (SStr ''c2'')) = Some [''c2'']
   \<and> id_values (ScalarList [SStr ''c2'', SStr ''c3'']) = Some [''c2'', ''c3'']
   \<and> (\<exists>q'. apply_arg_ids ex_rows [(''id'', Scalar (SStr ''c2'')), (''ids'', ScalarList [SStr ''c2'', SStr ''c3''])] = Inr q'
          \<and> (\<forall>r. r \<in> set (q_rows q') \<longleftrightarrow>
                r \<in> set (q_rows ex_rows) \<and> (\<exists>i \<in> set [''c2''] \<inter> set [''c2'', ''c3'']. col_node_id (q_entity ex_rows) r = Some i))
          \<and> (set [''c2''] \<inter> set [''c2'', ''c3''] = {} \<longrightarrow> q_all q' = []))
   \<and> map_sum id q_all (apply_arg_ids ex_rows [(''id'', Scalar (SStr ''c2'')), (''ids'', ScalarList [SStr ''c2'', SStr ''c3''])])
        = Inr [\<lparr>node_id = ''c2'', label = ''case'', props = []\<rparr>]"
proof -
  let ?args = "[(''id'', Scalar (SStr ''c2'')), (''ids'', ScalarList [SStr ''c2'', SStr ''c3''])]"
  have h1: "map_of ?args ''id'' = Some (Scalar (SStr ''c2''))" by simp
  have h2: "map_of ?args ''ids'' = Some (ScalarList [SStr ''c2'', SStr ''c3''])" by simp
  have h3: "id_values (Scalar (SStr ''c2'')) = Some [''c2'']" by simp
  have h4: "id_values (ScalarList [SStr ''c2'', SStr ''c3'']) = Some [''c2'', ''c3'']" by simp
  have run: "map_sum id q_all (apply_arg_ids ex_rows ?args) = Inr [\<lparr>node_id = ''c2'', label = ''case'', props = []\<rparr>]"
    by code_simp
  show ?thesis
    using id_and_ids_conjunction[OF h1 h2 h3 h4, of ex_rows] h1 h2 h3 h4 run by blast
qed

subsection \<open>Pagination\<close>

text \<open>
  C9, as the code has it. An unset \<open>first\<close> stands for the default of ten; a \<open>first\<close>
  that is zero or negative puts no cap, a positive one caps the rows at its value. The limit
  and the offset are set on the same wrapping statement, so the offset skips rows of the
  wrapped query first and the cap then applies to what is left.
\<close>

theorem first_offset_rows:
  assumes "apply_arg_first_offset q args = Inr q'"
  shows "\<exists>k m. int_arg args ''first'' DEFAULT_LIMIT = Inr k \<and> int_arg args ''offset'' 0 = Inr m
           \<and> (map_of args ''first'' = None \<longrightarrow> k = 10)
           \<and> q_all q' = unique_list (if k > 0 then take (nat k) (drop (nat m) (q_select q)) else drop (nat m) (q_select q))
           \<and> (k > 0 \<longrightarrow> length (q_all q') \<le> nat k)"
proof -
  obtain k where k: "int_arg args ''first'' DEFAULT_LIMIT = Inr k"
    using assms by (cases "int_arg args ''first'' DEFAULT_LIMIT")
      (auto simp: apply_arg_first_offset_def apply_arg_limit_def)
  obtain m where m: "int_arg args ''offset'' 0 = Inr m"
    using assms k by (cases "int_arg args ''offset'' 0")
      (auto simp: apply_arg_first_offset_def apply_arg_limit_def apply_arg_offset_def)
  have unset: "map_of args ''first'' = None \<longrightarrow> k = 10"
    using k by (auto simp: int_arg_def DEFAULT_LIMIT_def)
  have sel: "q_select q' = (if k > 0 then take (nat k) (drop (nat m) (q_select q)) else drop (nat m) (q_select q))"
    using assms k m
    by (auto simp: apply_arg_first_offset_def apply_arg_limit_def apply_arg_offset_def
        from_self_def q_limit_set_def q_offset_set_def q_select_def mk_query_def mk_row_def comp_def)
  have len: "k > 0 \<longrightarrow> length (q_all q') \<le> nat k"
  proof
    assume "k > 0"
    then have "length (q_select q') \<le> nat k" by (simp add: sel)
    moreover have "length (unique_list (q_select q')) \<le> length (q_select q')" by (rule length_unique_list)
    ultimately show "length (q_all q') \<le> nat k" unfolding q_all_def by linarith
  qed
  show ?thesis using k m unset sel len by (simp add: q_all_def)
qed

theorem first_offset_rows_witness:
  "apply_arg_first_offset ex_rows [(''first'', Scalar (SInt 2)), (''offset'', Scalar (SInt 1))]
     = Inr (q_offset_set (q_limit_set (from_self ex_rows) (Some 2)) 1)
   \<and> q_all (q_offset_set (q_limit_set (from_self ex_rows) (Some 2)) 1)
        = [\<lparr>node_id = ''c2'', label = ''case'', props = []\<rparr>, \<lparr>node_id = ''c3'', label = ''case'', props = []\<rparr>]
   \<and> (\<exists>k m. int_arg [(''first'', Scalar (SInt 2)), (''offset'', Scalar (SInt 1))] ''first'' DEFAULT_LIMIT = Inr k
          \<and> int_arg [(''first'', Scalar (SInt 2)), (''offset'', Scalar (SInt 1))] ''offset'' 0 = Inr m
          \<and> q_all (q_offset_set (q_limit_set (from_self ex_rows) (Some 2)) 1)
               = unique_list (if k > 0 then take (nat k) (drop (nat m) (q_select ex_rows)) else drop (nat m) (q_select ex_rows)))"
proof -
  have h: "apply_arg_first_offset ex_rows [(''first'', Scalar (SInt 2)), (''offset'', Scalar (SInt 1))]
     = Inr (q_offset_set (q_limit_set (from_self ex_rows) (Some 2)) 1)"
    by code_simp
  have r: "q_all (q_offset_set (q_limit_set (from_self ex_rows) (Some 2)) 1)
        = [\<lparr>node_id = ''c2'', label = ''case'', props = []\<rparr>, \<lparr>node_id = ''c3'', label = ''case'', props = []\<rparr>]"
    by code_simp
  show ?thesis using first_offset_rows[OF h] h r by blast
qed

text \<open>
  C9 as stated has the offset skip rows of the result already cut to \<open>first\<close> rows. On
  four rows with \<open>first = 2\<close> and \<open>offset = 1\<close> that would leave the second row alone;
  the code returns the second and the third.
\<close>

theorem offset_not_after_limit:
  "map_sum id q_all (apply_arg_first_offset ex_rows [(''first'', Scalar (SInt 2)), (''offset'', Scalar (SInt 1))])
     = Inr [\<lparr>node_id = ''c2'', label = ''case'', props = []\<rparr>, \<lparr>node_id = ''c3'', label = ''case'', props = []\<rparr>]
   \<and> drop 1 (take 2 (q_all ex_rows)) = [\<lparr>node_id = ''c2'', label = ''case'', props = []\<rparr>]"
  by code_simp

subsection \<open>The count batcher\<close>

text \<open>
  C8: a count for a scoped class other than the project, asked with the project id as its
  only argument, one string or a list of one string, and for a project that is not among the
  caller's \<open>read_access_projects\<close>, returns zero at once and leaves the counter as it was.
\<close>

theorem add_count_denied:
  assumes "cls = ''node'' \<or> hasattr (e_schema env) cls ''project_id''"
    and "cls \<noteq> ''project''"
    and "v = Scalar (SStr project_id) \<or> v = ScalarList [SStr project_id]"
    and "project_id \<notin> set (read_access_projects env)"
  shows "add_count env self cls [(''project_id'', v)] = (Inr (Count 0), self)"
  using assms by (auto simp: add_count_def)

theorem add_count_denied_witness:
  "(''case'' = ''node'' \<or> hasattr (e_schema ex_env) ''case'' ''project_id'')
   \<and> ''case'' \<noteq> ''project''
   \<and> (Scalar (SStr ''prog-P2'') = Scalar (SStr ''prog-P2'') \<or> Scalar (SStr ''prog-P2'') = ScalarList [SStr ''prog-P2''])
   \<and> ''prog-P2'' \<notin> set (read_access_projects ex_env)
   \<and> add_count ex_env \<lparr>nc_project_ids = [(''prog-P1'', ''p_0'')], nc_queries = []\<rparr> ''case''
        [(''project_id'', Scalar (SStr ''prog-P2''))]
      = (Inr (Count 0), \<lparr>nc_project_ids = [(''prog-P1'', ''p_0'')], nc_queries = []\<rparr>)"
proof -
  have h1: "''case'' = ''node'' \<or> hasattr (e_schema ex_env) ''case'' ''project_id''" by code_simp
  have h2: "''case'' \<noteq> ''project''" by simp
  have h3: "Scalar (SStr ''prog-P2'') = Scalar (SStr ''prog-P2'') \<or> Scalar (SStr ''prog-P2'') = ScalarList [SStr ''prog-P2'']"
    by simp
  have h4: "''prog-P2'' \<notin> set (read_access_projects ex_env)" by code_simp
  show ?thesis using add_count_denied[OF h1 h2 h3 h4] h1 h2 h4 by simp
qed

subsection \<open>Property filters\<close>

text \<open>
  What lines 243 to 248 do for a property of scalar type that is not boolean: a row stays
  exactly when the text of its value is the text of one of the given values.
\<close>

lemma scalar_prop_filter:
  assumes "map_of (pg_properties (sch (q_entity q))) key = Some TStr"
    and "scalar_items v = Inr val"
  shows "\<exists>q'. apply_prop_filter sch q key v = Inr q'
           \<and> (\<forall>r. r \<in> set (q_rows q') \<longleftrightarrow>
                 r \<in> set (q_rows q) \<and> (\<exists>x \<in> set val. col_astext (q_entity q) key r = Some (py_str x)))"
proof -
  let ?q' = "q_filter q (\<lambda>r. sql_in (col_astext (q_entity q) key r) (map py_str val))"
  have run: "apply_prop_filter sch q key v = Inr ?q'"
    using assms by (simp add: apply_prop_filter_def)
  have "r \<in> set (q_rows ?q') \<longleftrightarrow>
      r \<in> set (q_rows q) \<and> (\<exists>x \<in> set val. col_astext (q_entity q) key r = Some (py_str x))" for r
    by (cases "col_astext (q_entity q) key r") (auto simp: q_rows_filter sql_in_def)
  then show ?thesis using run by blast
qed

text \<open>
  What lines 245 to 248 do for a boolean property: the given values are compared as
  \<open>true\<close> and \<open>false\<close>, the text of a stored boolean.
\<close>

lemma bool_prop_filter:
  assumes "map_of (pg_properties (sch (q_entity q))) key = Some TBool"
  shows "apply_prop_filter sch q key (ScalarList [SBool b])
           = Inr (q_filter q (\<lambda>r. sql_in (col_astext (q_entity q) key r) [the (astext (JBool b))]))"
proof -
  have "lower ''True'' = ''true''" and "lower ''False'' = ''false''" by code_simp+
  then show ?thesis using assms by (cases b) (simp_all add: apply_prop_filter_def)
qed

text \<open>
  C3, the list-typed part, at a failing input. The values go unescaped into a \<open>LIKE\<close>
  pattern over the text of the stored array, so \<open>_\<close> and \<open>%\<close> in a value are
  wildcards: the filter \<open>consent_codes: ["a_b"]\<close> returns the sample whose stored list is
  \<open>["axb"]\<close>, which does not contain \<open>a_b\<close>.
\<close>

theorem list_filter_wildcard:
  "map_sum id q_all (apply_arg_props ex_schema (db_nodes ex_graph ''sample'')
                       [(''consent_codes'', ScalarList [SStr ''a_b''])]) = Inr [ex_sample]
   \<and> map_of (props ex_sample) ''consent_codes'' = Some (JList [''axb''])
   \<and> ''a_b'' \<notin> set [''axb'']"
  by code_simp

subsection \<open>Quick search\<close>

text \<open>
  C5 at a failing input: both rows match \<open>AB12\<close> and both are returned, but in the order
  of the union, the longer submitter id first. Ordering the union by the length of the
  submitter id, which line 211 computes and drops, would put the shorter first.
\<close>

theorem quicksearch_not_ordered:
  "map_sum id q_all (apply_arg_quicksearch (mk_query ''sample'' [ex_long, ex_short])
                       [(''quick_search'', Scalar (SStr ''AB12''))]) = Inr [ex_long, ex_short]
   \<and> q_all (q_order_by (mk_query ''sample'' [ex_long, ex_short])
               (\<lambda>r. map_option length (col_astext ''sample'' ''submitter_id'' r))) = [ex_short, ex_long]"
  by code_simp

text \<open>The query returned is the union itself, whatever the rows.\<close>

lemma quicksearch_is_union:
  assumes "phrase \<noteq> []"
  shows "apply_arg_quicksearch q [(''quick_search'', Scalar (SStr phrase))]
           = Inr (q_union (q_filter q (\<lambda>r. sql_contains (sql_lower (col_node_id (q_entity q) r)) (lower phrase)))
                          (q_filter q (\<lambda>r. sql_contains (sql_lower (col_astext (q_entity q) ''submitter_id'' r)) (lower phrase))))"
  using assms by (simp add: apply_arg_quicksearch_def Let_def)

subsection \<open>Traversals from the generic node query\<close>












subsection \<open>The project filter\<close>

lemma split_hyphen_no_hyphen:
  assumes "CHR ''-'' \<notin> set v"
  shows "split_hyphen v = [v]"
proof -
  have "dropWhile (\<lambda>c. c \<noteq> CHR ''-'') v = []"
    using assms by (induction v) auto
  then show ?thesis
    by (simp del: dropWhile_eq_Nil_conv add: split_hyphen_def)
qed

lemma split_hyphen_cases: "split_hyphen s = [s] \<or> (\<exists>a b. split_hyphen s = [a, b])"
  by (cases "dropWhile (\<lambda>c. c \<noteq> CHR ''-'') s")
    (simp_all del: dropWhile_eq_Nil_conv add: split_hyphen_def)

lemma project_subqs_skip:
  assumes "CHR ''-'' \<notin> set v"
  shows "project_subqs env q (xs @ Some (SStr v) # ys) = project_subqs env q (xs @ ys)"
proof (induction xs)
  case Nil
  then show ?case using split_hyphen_no_hyphen[OF assms] by simp
next
  case (Cons x xs)
  show ?case
  proof (cases x)
    case None
    then show ?thesis by simp
  next
    case (Some s)
    show ?thesis
    proof (cases s)
      case (SStr project_id)
      then show ?thesis
        using Some split_hyphen_cases[of project_id] by (auto simp: Cons.IH split: sum.splits)
    next
      case (SBool b)
      then show ?thesis using Some by simp
    next
      case (SInt i)
      then show ?thesis using Some by simp
    next
      case (SFloat t)
      then show ?thesis using Some by simp
    qed
  qed
qed

text \<open>
  C7, as the code has it. A project id without a hyphen raises nothing: it adds no subquery,
  so the filter gives what it gives without that value, and a filter that names only such a
  value returns no rows.
\<close>

theorem project_id_without_hyphen:
  assumes "CHR ''-'' \<notin> set v"
  shows "filter_project_project_id env q (ScalarList (as @ SStr v # bs))
           = filter_project_project_id env q (ScalarList (as @ bs))
       \<and> filter_project_project_id env q (ScalarList [SStr v]) = Inr (q_filter q (\<lambda>r. sql_false))
       \<and> filter_project_project_id env q (Scalar (SStr v)) = Inr (q_filter q (\<lambda>r. sql_false))"
proof -
  have "project_subqs env q (map Some as @ Some (SStr v) # map Some bs) = project_subqs env q (map Some as @ map Some bs)"
    by (rule project_subqs_skip[OF assms])
  then have a: "filter_project_project_id env q (ScalarList (as @ SStr v # bs))
           = filter_project_project_id env q (ScalarList (as @ bs))"
    by (simp add: filter_project_project_id_def)
  have b: "filter_project_project_id env q (ScalarList [SStr v]) = Inr (q_filter q (\<lambda>r. sql_false))"
    using split_hyphen_no_hyphen[OF assms] by (simp add: filter_project_project_id_def)
  have c: "filter_project_project_id env q (Scalar (SStr v)) = Inr (q_filter q (\<lambda>r. sql_false))"
    using split_hyphen_no_hyphen[OF assms] by (simp add: filter_project_project_id_def)
  show ?thesis using a b c by blast
qed

theorem project_id_without_hyphen_witness:
  "CHR ''-'' \<notin> set ''nohyphen''
   \<and> filter_project_project_id ex_env (db_nodes ex_graph ''project'') (ScalarList ([] @ SStr ''nohyphen'' # [SStr ''prog-P1'']))
        = filter_project_project_id ex_env (db_nodes ex_graph ''project'') (ScalarList ([] @ [SStr ''prog-P1'']))
   \<and> map_sum id q_all (filter_project_project_id ex_env (db_nodes ex_graph ''project'') (ScalarList [SStr ''prog-P1'']))
        = Inr [ex_project]
   \<and> filter_project_project_id ex_env (db_nodes ex_graph ''project'') (ScalarList [SStr ''nohyphen''])
        = Inr (q_filter (db_nodes ex_graph ''project'') (\<lambda>r. sql_false))"
proof -
  have h: "CHR ''-'' \<notin> set ''nohyphen''" by simp
  have run: "map_sum id q_all (filter_project_project_id ex_env (db_nodes ex_graph ''project'') (ScalarList [SStr ''prog-P1'']))
        = Inr [ex_project]"
    by code_simp
  show ?thesis
    using project_id_without_hyphen[OF h, of ex_env "db_nodes ex_graph ''project''" "[]" "[SStr ''prog-P1'']"] h run
    by simp
qed

text \<open>
  C7 as stated fails: the project filter asked for \<open>nohyphen\<close> is no error but a query
  without rows, and asked for \<open>nohyphen\<close> and \<open>prog-P1\<close> it returns the project
  \<open>prog-P1\<close>.
\<close>

theorem hyphenless_project_id_no_error:
  "map_sum id q_all (apply_arg_project_id ex_env (db_nodes ex_graph ''project'')
                       [(''project_id'', ScalarList [SStr ''nohyphen''])]) = Inr []
   \<and> map_sum id q_all (apply_arg_project_id ex_env (db_nodes ex_graph ''project'')
                          [(''project_id'', ScalarList [SStr ''nohyphen'', SStr ''prog-P1''])]) = Inr [ex_project]"
  by code_simp

subsection \<open>The authorization filter on the project\<close>

lemma select_unlimited: "unlimited q \<Longrightarrow> q_select q = map root (q_rows q)"
  by (simp add: unlimited_def q_select_def)

lemma project_subq_path:
  assumes "map_of (pg_edges (e_schema env ''project'')) ''programs'' = Some ''program''"
  shows "q_path (e_schema env) (e_graph env) [''programs''] (q_props (db_nodes g ''project'') ''code'' v)
           = Inr (q_join (e_graph env) (q_props (db_nodes g ''project'') ''code'' v) ''programs'' ''program'')"
  using assms
  by (simp add: q_path_def q_props_def q_entity_def q_filter_def db_nodes_def mk_query_def)

lemma q_join_rows:
  assumes "rooted c q" and "q_joinpoint q = c"
  shows "q_rows (q_join g q e d)
           = concat (map (\<lambda>r. map (\<lambda>m. r\<lparr>joined := (d, m) # joined r\<rparr>) (linked g (root r) e)) (q_rows q))"
proof -
  have "(case entity_of r (q_joinpoint q) of None \<Rightarrow> []
         | Some n \<Rightarrow> map (\<lambda>m. r\<lparr>joined := (d, m) # joined r\<rparr>) (linked g n e))
        = map (\<lambda>m. r\<lparr>joined := (d, m) # joined r\<rparr>) (linked g (root r) e)"
    if "r \<in> set (q_rows q)" for r
    using that assms by (simp add: rooted_def entity_of_def)
  then have eq: "map (\<lambda>r. case entity_of r (q_joinpoint q) of None \<Rightarrow> []
                      | Some n \<Rightarrow> map (\<lambda>m. r\<lparr>joined := (d, m) # joined r\<rparr>) (linked g n e)) (q_rows q)
             = map (\<lambda>r. map (\<lambda>m. r\<lparr>joined := (d, m) # joined r\<rparr>) (linked g (root r) e)) (q_rows q)"
    by (rule map_ext[rule_format])
  show ?thesis by (simp add: q_join_def eq)
qed

lemma project_subq_select:
  "set (q_select (q_props (q_join g (q_props (db_nodes g ''project'') ''code'' (Scalar (SStr pc))) ''programs'' ''program'')
                    ''name'' (Scalar (SStr pn))))
     = {n \<in> set (g_nodes g). label n = ''project''
          \<and> jsonb_contains (props n) ''code'' (Scalar (SStr pc))
          \<and> (\<exists>p \<in> set (linked g n ''programs''). jsonb_contains (props p) ''name'' (Scalar (SStr pn)))}"
  (is "set (q_select ?sq) = ?R")
proof -
  let ?qa = "q_props (db_nodes g ''project'') ''code'' (Scalar (SStr pc))"
  let ?qb = "q_join g ?qa ''programs'' ''program''"
  have u: "unlimited ?sq"
    by (simp add: unlimited_def q_props_def q_filter_def q_join_def db_nodes_def mk_query_def)
  have ra: "rooted ''project'' ?qa"
    unfolding q_props_def by (intro rooted_filter rooted_db_nodes)
  have ja: "q_joinpoint ?qa = ''project''"
    by (simp add: q_props_def q_filter_def db_nodes_def mk_query_def)
  have rows_a: "q_rows ?qa = filter (\<lambda>r. col_contains ''project'' ''code'' (Scalar (SStr pc)) r = Some True)
                  (map (mk_row ''project'') (filter (\<lambda>n. label n = ''project'') (g_nodes g)))"
    by (simp add: q_props_def q_filter_def q_entity_def db_nodes_def mk_query_def)
  have rows_b: "q_rows ?qb = concat (map (\<lambda>r. map (\<lambda>m. r\<lparr>joined := (''program'', m) # joined r\<rparr>)
                    (linked g (root r) ''programs'')) (q_rows ?qa))"
    by (rule q_join_rows[OF ra ja])
  have eb: "q_entity ?qb = ''program''" by (simp add: q_entity_def q_join_def)
  have rows: "q_rows ?sq = filter (\<lambda>r. col_contains ''program'' ''name'' (Scalar (SStr pn)) r = Some True) (q_rows ?qb)"
    unfolding q_props_def[of ?qb] eb by (rule q_rows_filter)
  have "root ` set (q_rows ?sq) = ?R"
  proof (intro set_eqI iffI)
    fix n assume "n \<in> root ` set (q_rows ?sq)"
    then show "n \<in> ?R"
      unfolding rows rows_b rows_a
      by (auto simp: col_contains_def entity_of_def mk_row_def)
  next
    fix n assume n: "n \<in> ?R"
    then obtain p where p: "p \<in> set (linked g n ''programs'')" "jsonb_contains (props p) ''name'' (Scalar (SStr pn))"
      by blast
    let ?r = "(mk_row ''project'' n)\<lparr>joined := [(''program'', p)]\<rparr>"
    have "?r \<in> set (q_rows ?sq)"
      unfolding rows rows_b rows_a using n p
      by (auto simp: col_contains_def entity_of_def mk_row_def intro!: bexI[of _ "mk_row ''project'' n"])
    moreover have "root ?r = n" by (simp add: mk_row_def)
    ultimately show "n \<in> root ` set (q_rows ?sq)" by force
  qed
  then show ?thesis using select_unlimited[OF u] by simp
qed

lemma project_subqs_matches:
  assumes "map_of (pg_edges (e_schema env ''project'')) ''programs'' = Some ''program''"
  shows "\<exists>subqs. project_subqs env (db_nodes (e_graph env) ''project'') (map Some (map SStr pids)) = Inr subqs
           \<and> (\<Union>sq \<in> set subqs. set (q_select sq))
               = {n \<in> set (g_nodes (e_graph env)). label n = ''project''
                    \<and> (\<exists>pid \<in> set pids. project_matches (e_graph env) n pid)}"
proof (induction pids)
  case Nil
  then show ?case by simp
next
  case (Cons pid pids)
  then obtain subqs where
    ih: "project_subqs env (db_nodes (e_graph env) ''project'') (map Some (map SStr pids)) = Inr subqs"
    and sel: "(\<Union>sq \<in> set subqs. set (q_select sq))
               = {n \<in> set (g_nodes (e_graph env)). label n = ''project''
                    \<and> (\<exists>pid \<in> set pids. project_matches (e_graph env) n pid)}"
    by blast
  from split_hyphen_cases[of pid] show ?case
  proof
    assume one: "split_hyphen pid = [pid]"
    then have "\<And>n. \<not> project_matches (e_graph env) n pid" by (simp add: project_matches_def)
    then show ?thesis using one ih sel by auto
  next
    assume "\<exists>a b. split_hyphen pid = [a, b]"
    then obtain pn pc where two: "split_hyphen pid = [pn, pc]" by blast
    let ?sq = "q_props (q_join (e_graph env) (q_props (db_nodes (e_graph env) ''project'') ''code'' (Scalar (SStr pc)))
                          ''programs'' ''program'') ''name'' (Scalar (SStr pn))"
    have run: "project_subqs env (db_nodes (e_graph env) ''project'') (map Some (map SStr (pid # pids))) = Inr (?sq # subqs)"
      using two ih project_subq_path[OF assms] by simp
    have m: "\<And>n. project_matches (e_graph env) n pid \<longleftrightarrow>
               jsonb_contains (props n) ''code'' (Scalar (SStr pc))
               \<and> (\<exists>p \<in> set (linked (e_graph env) n ''programs''). jsonb_contains (props p) ''name'' (Scalar (SStr pn)))"
      using two by (simp add: project_matches_def)
    have "(\<Union>sq \<in> set (?sq # subqs). set (q_select sq))
            = {n \<in> set (g_nodes (e_graph env)). label n = ''project''
                 \<and> (\<exists>pid \<in> set (pid # pids). project_matches (e_graph env) n pid)}"
      using sel project_subq_select[of "e_graph env" pc pn] m by auto
    then show ?thesis using run by blast
  qed
qed

text \<open>
  C2, as the code has it. For the project, which carries no \<open>project_id\<close> attribute and
  whose \<open>programs\<close> lead to the program, the authorized query returns exactly the project
  nodes that match an id of the caller's \<open>read_access_projects\<close> cut at its first hyphen:
  the part after the hyphen is the code of the project and the part before it is the name of
  one of its programs. An id without a hyphen matches no project. The \<open>state\<close> property
  plays no part in it.
\<close>

theorem authorized_projects:
  assumes "map_of (pg_edges (e_schema env ''project'')) ''programs'' = Some ''program''"
    and "\<not> hasattr (e_schema env) ''project'' ''project_id''"
  shows "\<exists>q'. get_authorized_query env ''project'' = Some (Inr q')
           \<and> set (q_all q') = {n \<in> set (g_nodes (e_graph env)). label n = ''project''
                                 \<and> (\<exists>pid \<in> set (read_access_projects env). project_matches (e_graph env) n pid)}"
proof -
  let ?q = "db_nodes (e_graph env) ''project''"
  let ?R = "{n \<in> set (g_nodes (e_graph env)). label n = ''project''
              \<and> (\<exists>pid \<in> set (read_access_projects env). project_matches (e_graph env) n pid)}"
  have ent: "q_entity ?q = ''project''" by (simp add: q_entity_def db_nodes_def mk_query_def)
  have ja: "join_authz env ?q = Some (Inr (?q, ''project'', None))"
    using ent by (cases "node_authz_entity env") (simp_all add: join_authz_def Let_def)
  have sf: "scope_filter env ?q ''project'' None = Inr ?q"
    using assms(2) by (simp add: scope_filter_def)
  obtain subqs where
    subqs: "project_subqs env ?q (map Some (map SStr (read_access_projects env))) = Inr subqs"
    and sel: "(\<Union>sq \<in> set subqs. set (q_select sq)) = ?R"
    using project_subqs_matches[OF assms(1), of "read_access_projects env"] by blast
  let ?q' = "if subqs = [] then q_filter ?q (\<lambda>r. sql_false) else select_union_all (q_entity ?q) subqs"
  have run: "get_authorized_query env ''project'' = Some (Inr ?q')"
    using ja sf subqs by (simp add: get_authorized_query_def authorization_filter_def filter_project_project_id_def)
  have "set (q_all ?q') = (\<Union>sq \<in> set subqs. set (q_select sq))"
  proof (cases "subqs = []")
    case True
    then show ?thesis
      by (simp add: q_all_def set_unique_list q_select_def q_filter_def sql_false_def db_nodes_def mk_query_def)
  next
    case False
    then show ?thesis
      by (simp add: q_all_def set_unique_list select_union_all_def q_select_def mk_query_def mk_row_def comp_def)
  qed
  then show ?thesis using run sel by blast
qed

theorem authorized_projects_witness:
  "map_of (pg_edges (e_schema ex_env ''project'')) ''programs'' = Some ''program''
   \<and> \<not> hasattr (e_schema ex_env) ''project'' ''project_id''
   \<and> (\<exists>q'. get_authorized_query ex_env ''project'' = Some (Inr q')
          \<and> set (q_all q') = {n \<in> set (g_nodes (e_graph ex_env)). label n = ''project''
                                \<and> (\<exists>pid \<in> set (read_access_projects ex_env). project_matches (e_graph ex_env) n pid)})
   \<and> project_matches (e_graph ex_env) ex_project ''prog-P1''"
proof -
  have h1: "map_of (pg_edges (e_schema ex_env ''project'')) ''programs'' = Some ''program''" by code_simp
  have h2: "\<not> hasattr (e_schema ex_env) ''project'' ''project_id''" by code_simp
  have m: "project_matches (e_graph ex_env) ex_project ''prog-P1''" by code_simp
  show ?thesis using authorized_projects[OF h1 h2] h1 h2 m by blast
qed

text \<open>
  C2 as stated fails: the project \<open>prog-P1\<close> is closed, the caller may read it, and the
  authorized query for projects returns it.
\<close>

theorem authorized_closed_project:
  "map_option (map_sum id q_all) (get_authorized_query ex_env ''project'') = Some (Inr [ex_project])
   \<and> map_of (props ex_project) ''state'' = Some (JStr ''closed'')"
  by code_simp

subsection \<open>Traversal filters and their negation\<close>

lemma unlimited_filter: "unlimited q \<Longrightarrow> unlimited (q_filter q p)"
  by (simp add: unlimited_def q_filter_def)

lemma limit_none_unlimited: "unlimited q \<Longrightarrow> q_limit_set q None = q"
  by (cases q) (simp add: unlimited_def q_limit_set_def)

lemma subq_path_filter: "subq_path env q link f = Inr s \<Longrightarrow> \<exists>p. s = q_filter q p"
  by (auto simp: subq_path_def split: option.splits sum.splits)

lemma subq_paths_filter: "subq_paths env q dst f = Inr s \<Longrightarrow> \<exists>p. s = q_filter q p"
  by (auto simp: subq_paths_def split: sum.splits)

lemma traverse_filter:
  assumes "unlimited q" and "traverse env q dst f = Inr (q1, s)"
  shows "q1 = q \<and> (\<exists>p. s = q_filter q p)"
proof -
  have l: "q_limit_set q None = q" by (rule limit_none_unlimited[OF assms(1)])
  show ?thesis
    using assms(2) subq_path_filter[of env q _ f s] subq_paths_filter[of env q dst f s]
    by (auto simp: traverse_def Let_def l split: if_splits sum.splits)
qed

lemma entries_narrow:
  assumes "with_path_to_entries env False name es q uqs = Inr (q', uqs')" and "unlimited q"
  shows "unlimited q' \<and> set (q_rows q') \<subseteq> set (q_rows q)"
  using assms
proof (induction es arbitrary: q)
  case Nil
  then show ?case by simp
next
  case (Cons entry es)
  from Cons.prems(1) obtain dst_type q1 subq where
    t: "traverse env q dst_type (end_of_traversal_filter (filter (\<lambda>item. fst item \<noteq> ''type'') entry)) = Inr (q1, subq)"
    and rest: "with_path_to_entries env False name es subq uqs = Inr (q', uqs')"
    by (auto split: sum.splits if_splits)
  from traverse_filter[OF Cons.prems(2) t] obtain p where p: "subq = q_filter q p" by blast
  have u: "unlimited subq" using p Cons.prems(2) by (simp add: unlimited_filter)
  have "unlimited q' \<and> set (q_rows q') \<subseteq> set (q_rows subq)"
    by (rule Cons.IH[OF rest u])
  moreover have "set (q_rows subq) \<subseteq> set (q_rows q)" using p by (auto simp: q_rows_filter)
  ultimately show ?case by blast
qed

lemma with_path_to_narrow:
  assumes "with_path_to env q v False name = Inr w" and "unlimited q"
  shows "unlimited w \<and> set (q_rows w) \<subseteq> set (q_rows q)"
proof -
  obtain q1 uqs where
    r: "(case v of ObjList entries \<Rightarrow> with_path_to_entries env False name entries q []
         | ScalarList [] \<Rightarrow> Inr (q, [])
         | other \<Rightarrow> Inl TypeError) = Inr (q1, uqs)"
    and w: "w = q1"
    using assms(1) by (auto simp: with_path_to_def split: sum.splits list.splits)
  show ?thesis
  proof (cases v)
    case (Scalar s)
    then show ?thesis using r by simp
  next
    case (ScalarList xs)
    then show ?thesis using r w assms(2) by (cases xs) auto
  next
    case (ObjList entries)
    then have "with_path_to_entries env False name entries q [] = Inr (q1, uqs)" using r by simp
    then show ?thesis using entries_narrow assms(2) w by blast
  qed
qed

text \<open>The name of the filter only words the errors.\<close>

lemma entry_type_name: "entry_type n1 entry = Inr t \<Longrightarrow> entry_type n2 entry = Inr t"
  by (auto simp: entry_type_def split: option.splits argval.splits scalar.splits if_splits)

lemma entries_name:
  "with_path_to_entries env any n1 es q uqs = Inr r \<Longrightarrow> with_path_to_entries env any n2 es q uqs = Inr r"
proof (induction es arbitrary: q uqs)
  case Nil
  then show ?case by simp
next
  case (Cons entry es)
  from Cons.prems obtain dst_type q1 subq where
    e: "entry_type n1 entry = Inr dst_type"
    and t: "traverse env q dst_type (end_of_traversal_filter (filter (\<lambda>item. fst item \<noteq> ''type'') entry)) = Inr (q1, subq)"
    and rest: "(if any then with_path_to_entries env any n1 es q1 (uqs @ [subq])
                else with_path_to_entries env any n1 es subq uqs) = Inr r"
    by (auto split: sum.splits if_splits)
  have "(if any then with_path_to_entries env any n2 es q1 (uqs @ [subq])
         else with_path_to_entries env any n2 es subq uqs) = Inr r"
    using rest Cons.IH by (cases any) auto
  then show ?case using entry_type_name[OF e] t by simp
qed

lemma with_path_to_name:
  assumes "with_path_to env q v any n1 = Inr w"
  shows "with_path_to env q v any n2 = Inr w"
proof (cases v)
  case (Scalar s)
  then show ?thesis using assms by (simp add: with_path_to_def)
next
  case (ScalarList xs)
  then show ?thesis using assms by (simp add: with_path_to_def)
next
  case (ObjList entries)
  then obtain r where r: "with_path_to_entries env any n1 entries q [] = Inr r"
    using assms by (auto simp: with_path_to_def split: sum.splits)
  then show ?thesis using assms ObjList entries_name[OF r, of n2] by (simp add: with_path_to_def)
qed

lemma q_all_except: "set (q_all (q_except a b)) = set (q_select a) - set (q_select b)"
  by (auto simp: q_all_def set_unique_list q_except_def q_select_def mk_query_def mk_row_def comp_def)

text \<open>
  C4: on a query that carries no limit or offset, as every query has that reaches these
  filters in \<open>apply_query_args\<close>, the rows that \<open>with_path_to\<close> keeps and the rows that
  \<open>without_path_to\<close> keeps for the same traversal are disjoint and together are the rows
  of the query.
\<close>

theorem path_partition:
  assumes "unlimited q"
    and "apply_arg_with_path_to env q [(''with_path_to'', X)] = Inr w"
  shows "\<exists>wo. apply_arg_without_path_to env q [(''without_path_to'', X)] = Inr wo
           \<and> set (q_all w) \<inter> set (q_all wo) = {}
           \<and> set (q_all w) \<union> set (q_all wo) = set (q_all q)"
proof -
  have w: "with_path_to env q X False ''with_path_to'' = Inr w"
    using assms(2) by (simp add: apply_arg_with_path_to_def)
  then have "with_path_to env q X False ''without_path_to'' = Inr w"
    by (rule with_path_to_name)
  then have run: "apply_arg_without_path_to env q [(''without_path_to'', X)] = Inr (q_except q w)"
    by (simp add: apply_arg_without_path_to_def)
  from with_path_to_narrow[OF w assms(1)] have uw: "unlimited w" and sub: "set (q_rows w) \<subseteq> set (q_rows q)"
    by blast+
  have sw: "set (q_select w) = root ` set (q_rows w)" using select_unlimited[OF uw] by simp
  have sq: "set (q_select q) = root ` set (q_rows q)" using select_unlimited[OF assms(1)] by simp
  have "set (q_select w) \<subseteq> set (q_select q)" using sw sq sub by blast
  moreover have "set (q_all (q_except q w)) = set (q_select q) - set (q_select w)" by (rule q_all_except)
  moreover have "set (q_all w) = set (q_select w)" "set (q_all q) = set (q_select q)"
    by (simp_all add: q_all_def set_unique_list)
  ultimately have "set (q_all w) \<inter> set (q_all (q_except q w)) = {}
      \<and> set (q_all w) \<union> set (q_all (q_except q w)) = set (q_all q)"
    by blast
  then show ?thesis using run by blast
qed

theorem path_partition_witness:
  "unlimited (db_nodes ex_graph ''sample'')
   \<and> apply_arg_with_path_to ex_env_nocache (db_nodes ex_graph ''sample'') [(''with_path_to'', ex_to_case)]
        = Inr (mk_query ''sample'' [ex_sample])
   \<and> (\<exists>wo. apply_arg_without_path_to ex_env_nocache (db_nodes ex_graph ''sample'') [(''without_path_to'', ex_to_case)] = Inr wo
          \<and> set (q_all (mk_query ''sample'' [ex_sample])) \<inter> set (q_all wo) = {}
          \<and> set (q_all (mk_query ''sample'' [ex_sample])) \<union> set (q_all wo) = set (q_all (db_nodes ex_graph ''sample'')))
   \<and> q_all (mk_query ''sample'' [ex_sample]) = [ex_sample]
   \<and> map_sum id q_all (apply_arg_without_path_to ex_env_nocache (db_nodes ex_graph ''sample'') [(''without_path_to'', ex_to_case)])
        = Inr [ex_sample2]"
proof -
  have h1: "unlimited (db_nodes ex_graph ''sample'')" by code_simp
  have h2: "apply_arg_with_path_to ex_env_nocache (db_nodes ex_graph ''sample'') [(''with_path_to'', ex_to_case)]
        = Inr (mk_query ''sample'' [ex_sample])"
    by code_simp
  have r1: "q_all (mk_query ''sample'' [ex_sample]) = [ex_sample]" by code_simp
  have r2: "map_sum id q_all (apply_arg_without_path_to ex_env_nocache (db_nodes ex_graph ''sample'') [(''without_path_to'', ex_to_case)])
        = Inr [ex_sample2]"
    by code_simp
  show ?thesis using path_partition[OF h1 h2] h1 h2 r1 r2 by blast
qed

end
